theory Spec2Isabelle
  imports Complex_Main "HOL-Library.AList" "HOL-Library.Signed_Division" "HOL-Library.Log_Nat"
begin

section \<open>Data model\<close>

text \<open>
  The giveaway bot keeps one \<open>Giveaway\<close> object per channel in the module-level
  \<open>activeGiveaways\<close> map.  The two entry ledgers are JavaScript \<open>Map\<close>s; they are modelled
  as association lists in insertion order, read with \<^const>\<open>map_of\<close> and written with
  \<^const>\<open>AList.update\<close>, which like \<open>Map.prototype.set\<close> overwrites an existing key in place
  and appends a new one.  \<open>bigint\<close> values are \<^typ>\<open>int\<close>.  The entry counts and the cap are
  \<open>number\<close>s that hold integers; they are \<^typ>\<open>int\<close> too, and where the code converts a
  \<open>bigint\<close> to a count, or adds or subtracts counts, the model rounds to the nearest double
  (\<open>roundToDouble\<close> below).  A cap that holds \<open>NaN\<close> or \<open>Infinity\<close> (after a malformed or overlong \<open>cap:\<close>
  argument) is outside the model.
  Dollar amounts are \<open>number\<close>s that need not be integers, with \<open>NaN\<close> and the infinities.  A
  \<open>Date\<close> is its time value in milliseconds; \<open>startTime\<close> is always a valid date, for
  \<open>endTime\<close> the value \<open>None\<close> stands for an invalid date.
\<close>

record giveaway =
  channelId :: string
  prize :: string
  startTime :: int
  endTime :: "int option"
  tipEntryFee :: int
  tipEntryCap :: int
  tipEntries :: "(string \<times> int) list"
  reactionEntries :: "(string \<times> int) list"
  isActive :: bool
  announcementMessageId :: "string option"

type_synonym registry = "string \<rightharpoonup> giveaway"

datatype error = Usage | InvalidDuration | AlreadyActive | InvalidDecimalNumber | RangeError

text \<open>
  A \<open>number\<close> that holds a dollar amount or a price: \<open>Num r\<close> is the finite double whose
  value is \<open>r\<close>.
\<close>

datatype number = NaN | PosInfinity | NegInfinity | Num real



text \<open>
  The nearest double of an integer, ties to the even mantissa: the value of \<open>Number(n)\<close> for
  a \<open>bigint\<close>, and of a sum or difference of two doubles whose exact value is the integer
  \<open>n\<close>.  Up to \<open>2^53\<close> every integer is a double; a larger one keeps its 53 leading bits.
  Beyond the largest double, close to \<open>2^1024\<close>, the code has \<open>Infinity\<close>, which like the large
  value here exceeds every cap that is a double.
\<close>

definition roundToDouble :: "int \<Rightarrow> int" where
  "roundToDouble n =
     (if \<bar>n\<bar> < 2 ^ 53 then n
      else
        let e = nat (bitlen \<bar>n\<bar> - 53);
            q = \<bar>n\<bar> div 2 ^ e;
            r = \<bar>n\<bar> mod 2 ^ e;
            q' = (if 2 ^ e < 2 * r \<or> (2 * r = 2 ^ e \<and> odd q) then q + 1 else q)
        in sgn n * (q' * 2 ^ e))"

text \<open>\<open>m.get(k) || 0\<close>: the stored count, and 0 for a missing key.\<close>

definition getOrZero :: "(string \<times> int) list \<Rightarrow> string \<Rightarrow> int" where
  "getOrZero m k = (case map_of m k of None \<Rightarrow> 0 | Some v \<Rightarrow> v)"

text \<open>\<open>new Date(t)\<close> clips its argument: beyond 8.64e15 ms the date is invalid.\<close>

definition newDate :: "int \<Rightarrow> int option" where
  "newDate t = (if \<bar>t\<bar> \<le> 8640000000000000 then Some t else None)"

text \<open>\<open>new Date() > endTime\<close>: a comparison with an invalid date is false.\<close>

definition hasEnded :: "int \<Rightarrow> giveaway \<Rightarrow> bool" where
  "hasEnded now g = (case endTime g of None \<Rightarrow> False | Some e \<Rightarrow> now > e)"

section \<open>Entry ledger\<close>

definition getGiveaway :: "registry \<Rightarrow> string \<Rightarrow> giveaway option" where
  "getGiveaway reg c = reg c"

definition addReactionEntry :: "registry \<Rightarrow> string \<Rightarrow> string \<Rightarrow> int \<Rightarrow> registry" where
  "addReactionEntry reg c u count =
     (case reg c of
        None \<Rightarrow> reg
      | Some g \<Rightarrow>
          if \<not> isActive g then reg
          else
            let currentEntries = getOrZero (reactionEntries g) u
            in reg(c \<mapsto> g\<lparr>reactionEntries :=
                 AList.update u (roundToDouble (currentEntries + count)) (reactionEntries g)\<rparr>))"

definition addTipEntry :: "registry \<Rightarrow> string \<Rightarrow> string \<Rightarrow> int \<Rightarrow> registry \<times> int" where
  "addTipEntry reg c u count =
     (case reg c of
        None \<Rightarrow> (reg, 0)
      | Some g \<Rightarrow>
          if \<not> isActive g then (reg, 0)
          else
            let currentTipEntries = getOrZero (tipEntries g) u;
                remainingCap = roundToDouble (tipEntryCap g - currentTipEntries)
            in if remainingCap \<le> 0 then (reg, 0)
               else
                 let entriesToAdd = min count remainingCap
                 in (reg(c \<mapsto> g\<lparr>tipEntries :=
                       AList.update u (roundToDouble (currentTipEntries + entriesToAdd))
                         (tipEntries g)\<rparr>),
                     entriesToAdd))"

definition getTotalEntries :: "giveaway \<Rightarrow> string \<Rightarrow> int" where
  "getTotalEntries g u =
     roundToDouble (getOrZero (reactionEntries g) u + getOrZero (tipEntries g) u)"

section \<open>Event handlers\<close>

record tipEvent =
  tipChannelId :: string
  receiverAddress :: string
  senderAddress :: string
  amount :: int

datatype tipReply = TipIgnored | TipTooSmall | TipCapReached | TipCredited int

text \<open>
  \<open>bot.onTip\<close>.  The quotient of two \<open>bigint\<close>s truncates towards zero (\<^const>\<open>signed_divide\<close>)
  and a zero divisor throws a \<open>RangeError\<close>.  \<open>Number(...)\<close> rounds the quotient to a double.
  The reply records which message is sent.
\<close>

definition onTip :: "string \<Rightarrow> int \<Rightarrow> registry \<Rightarrow> tipEvent \<Rightarrow> error + registry \<times> tipReply" where
  "onTip botId now reg ev =
     (if receiverAddress ev \<noteq> botId then Inr (reg, TipIgnored)
      else
        case getGiveaway reg (tipChannelId ev) of
          None \<Rightarrow> Inr (reg, TipIgnored)
        | Some g \<Rightarrow>
            if \<not> isActive g then Inr (reg, TipIgnored)
            else if hasEnded now g
              then Inr (reg(tipChannelId ev \<mapsto> g\<lparr>isActive := False\<rparr>), TipIgnored)
            else if tipEntryFee g = 0 then Inl RangeError
            else
              let potentialEntries = roundToDouble (amount ev sdiv tipEntryFee g)
              in if potentialEntries < 1 then Inr (reg, TipTooSmall)
                 else
                   let (reg', entriesAdded) =
                         addTipEntry reg (tipChannelId ev) (senderAddress ev) potentialEntries
                   in if entriesAdded = 0 then Inr (reg', TipCapReached)
                      else Inr (reg', TipCredited entriesAdded))"

record reactionEvent =
  reaction :: string
  reactionChannelId :: string
  messageId :: string
  userId :: string

text \<open>\<open>bot.onReaction\<close>; \<open>gift\<close> is the one reaction symbol that counts.\<close>

definition onReaction :: "string \<Rightarrow> int \<Rightarrow> registry \<Rightarrow> reactionEvent \<Rightarrow> registry" where
  "onReaction gift now reg ev =
     (if reaction ev \<noteq> gift then reg
      else
        case getGiveaway reg (reactionChannelId ev) of
          None \<Rightarrow> reg
        | Some g \<Rightarrow>
            if \<not> isActive g then reg
            else if Some (messageId ev) \<noteq> announcementMessageId g then reg
            else if hasEnded now g
              then reg(reactionChannelId ev \<mapsto> g\<lparr>isActive := False\<rparr>)
            else addReactionEntry reg (reactionChannelId ev) (userId ev) 1)"

section \<open>Currency conversion\<close>

text \<open>
  \<open>usdToWei\<close> divides two doubles, prints the quotient with \<open>Number.prototype.toString\<close> and
  hands the string to \<open>parseEther\<close> of the \<open>viem\<close> library, which reads a decimal string as
  an amount with 18 decimals and throws \<open>InvalidDecimalNumberError\<close> on a string that is not
  a plain decimal number.  The division of doubles, the printing of a double and
  \<open>parseEther\<close> are not part of the repository: they are parameters of the model, collected
  in a record.  \<open>parseEther\<close> returns \<open>None\<close> where it throws.
\<close>

record runtime =
  numberDivide :: "number \<Rightarrow> number \<Rightarrow> number"
  numberToString :: "number \<Rightarrow> string"
  parseEther :: "string \<Rightarrow> int option"

text \<open>\<open>usdToWei\<close> reads the module variable \<open>ethPriceUsd\<close>, here its second argument.\<close>

definition usdToWei :: "runtime \<Rightarrow> number \<Rightarrow> number \<Rightarrow> error + int" where
  "usdToWei rt ethPriceUsd usdAmount =
     (let ethAmount = numberDivide rt usdAmount ethPriceUsd
      in case parseEther rt (numberToString rt ethAmount) of
           None \<Rightarrow> Inl InvalidDecimalNumber
         | Some wei \<Rightarrow> Inr wei)"

section \<open>Creating a giveaway\<close>

definition isDigit :: "char \<Rightarrow> bool" where
  "isDigit c = (c \<in> set ''0123456789'')"

text \<open>
  \<open>durationStr.match(/^(\d+)([hdm])$/i)\<close>: the longest run of digits, then one unit letter
  in either case, then the end of the string.  The result holds the two capture groups.
\<close>

definition durationMatch :: "string \<Rightarrow> (string \<times> char) option" where
  "durationMatch s =
     (let ds = takeWhile isDigit s; rest = dropWhile isDigit s
      in case rest of
           [u] \<Rightarrow> if ds \<noteq> [] \<and> u \<in> set ''hdmHDM'' then Some (ds, u) else None
         | _ \<Rightarrow> None)"

text \<open>
  The \<open>create\<close> branch of the first version of the command handler (\<open>src/src/index.ts\<close>)
  parses the duration inline, with the same expression without the \<open>i\<close> flag:
  \<open>durationStr.match(/^(\d+)([hdm])$/)\<close>.
\<close>

definition durationMatchInline :: "string \<Rightarrow> (string \<times> char) option" where
  "durationMatchInline s =
     (let ds = takeWhile isDigit s; rest = dropWhile isDigit s
      in case rest of
           [u] \<Rightarrow> if ds \<noteq> [] \<and> u \<in> set ''hdm'' then Some (ds, u) else None
         | _ \<Rightarrow> None)"

text \<open>\<open>parseInt\<close> on a string of decimal digits.\<close>

definition digitValue :: "char \<Rightarrow> int" where
  "digitValue c = int (length (takeWhile (\<lambda>d. d \<noteq> c) ''0123456789''))"

definition parseInt :: "string \<Rightarrow> int" where
  "parseInt ds = fold (\<lambda>c n. 10 * n + digitValue c) ds 0"

definition toLowerCase :: "char \<Rightarrow> char" where
  "toLowerCase c =
     (if c = CHR ''H'' then CHR ''h'' else if c = CHR ''D'' then CHR ''d''
      else if c = CHR ''M'' then CHR ''m'' else c)"

definition msDuration :: "int \<Rightarrow> char \<Rightarrow> int" where
  "msDuration durationValue durationUnit =
     (if durationUnit = CHR ''m'' then durationValue * 60 * 1000
      else if durationUnit = CHR ''h'' then durationValue * 60 * 60 * 1000
      else if durationUnit = CHR ''d'' then durationValue * 24 * 60 * 60 * 1000
      else 0)"

text \<open>
  \<open>createGiveaway\<close>.  The arguments \<open>ethPriceUsd\<close>, \<open>now\<close> (the value of \<open>new Date()\<close>) and
  \<open>eventId\<close> (the id that \<open>handler.sendMessage\<close> returns for the announcement) stand for
  the environment.  A returned \<open>{ success: false }\<close> and a thrown exception are both \<open>Inl\<close>.
  The record is stored and then completed with the id of the announcement; the model takes
  the two steps as one.  The arithmetic on the duration is exact wherever the end is a valid
  date, and gives an invalid date otherwise.
\<close>

definition createGiveaway ::
  "runtime \<Rightarrow> number \<Rightarrow> int \<Rightarrow> string \<Rightarrow> registry \<Rightarrow> string \<Rightarrow> string \<Rightarrow> string \<Rightarrow>
     number \<Rightarrow> int \<Rightarrow> error + registry"
where
  "createGiveaway rt ethPriceUsd now eventId reg c prz durationStr tipFeeUsd cap =
     (case durationMatch durationStr of
        None \<Rightarrow> Inl InvalidDuration
      | Some (digits, unit) \<Rightarrow>
          let durationValue = parseInt digits;
              durationUnit = toLowerCase unit;
              ms = msDuration durationValue durationUnit
          in if (case getGiveaway reg c of None \<Rightarrow> False | Some existing \<Rightarrow> isActive existing)
             then Inl AlreadyActive
             else
               (case usdToWei rt ethPriceUsd tipFeeUsd of
                  Inl e \<Rightarrow> Inl e
                | Inr fee \<Rightarrow>
                    Inr (reg(c \<mapsto>
                      \<lparr>channelId = c, prize = prz, startTime = now, endTime = newDate (now + ms),
                       tipEntryFee = fee, tipEntryCap = cap, tipEntries = [],
                       reactionEntries = [], isActive = True,
                       announcementMessageId = Some eventId\<rparr>))))"

text \<open>
  The \<open>create\<close> branch of the first version of the command handler, from the prize and the
  duration string that it takes from the arguments (the last argument is the duration, the
  ones before it the prize); \<open>tipFeeUsd\<close> and \<open>cap\<close> are the values of the \<open>fee:\<close> and \<open>cap:\<close>
  arguments or their defaults.  It answers with a message where \<open>createGiveaway\<close> returns
  \<open>{ success: false }\<close>.
\<close>

definition giveaway_create ::
  "runtime \<Rightarrow> number \<Rightarrow> int \<Rightarrow> string \<Rightarrow> registry \<Rightarrow> string \<Rightarrow> string \<Rightarrow> string \<Rightarrow>
     number \<Rightarrow> int \<Rightarrow> error + registry"
where
  "giveaway_create rt ethPriceUsd now eventId reg c prz durationStr tipFeeUsd cap =
     (if prz = [] \<or> durationStr = [] then Inl Usage
      else
        case durationMatchInline durationStr of
          None \<Rightarrow> Inl InvalidDuration
        | Some (digits, durationUnit) \<Rightarrow>
            let durationValue = parseInt digits;
                ms = msDuration durationValue durationUnit
            in if (case getGiveaway reg c of None \<Rightarrow> False | Some existing \<Rightarrow> isActive existing)
               then Inl AlreadyActive
               else
                 (case usdToWei rt ethPriceUsd tipFeeUsd of
                    Inl e \<Rightarrow> Inl e
                  | Inr fee \<Rightarrow>
                      Inr (reg(c \<mapsto>
                        \<lparr>channelId = c, prize = prz, startTime = now,
                         endTime = newDate (now + ms),
                         tipEntryFee = fee, tipEntryCap = cap, tipEntries = [],
                         reactionEntries = [], isActive = True,
                         announcementMessageId = Some eventId\<rparr>))))"

section \<open>Lottery\<close>

text \<open>\<open>new Set([...])\<close>: the distinct elements in the order of their first occurrence.\<close>

definition newSet :: "'a list \<Rightarrow> 'a list" where
  "newSet xs = fold (\<lambda>x acc. if x \<in> set acc then acc else acc @ [x]) xs []"

definition allUsers :: "giveaway \<Rightarrow> string list" where
  "allUsers g = newSet (map fst (reactionEntries g) @ map fst (tipEntries g))"

text \<open>The weighted array: the inner loop pushes \<open>userId\<close> once for each \<open>i < totalEntries\<close>.\<close>

definition weightedEntries :: "giveaway \<Rightarrow> string list" where
  "weightedEntries g =
     concat (map (\<lambda>u. replicate (nat (getTotalEntries g u)) u) (allUsers g))"

text \<open>
  \<open>selectWinner\<close>; \<open>rnd\<close> is the value of \<open>Math.random()\<close>, a real number.  Reading an array
  out of range gives \<open>undefined\<close>, which the caller treats like \<open>null\<close>.  The product with the
  length is taken exactly here; the code rounds it to a double before \<open>Math.floor\<close>, so for a
  random number within rounding distance of a slot boundary it can read the neighbouring slot.
  The facts proved below about \<open>selectWinner\<close> use only that the index lies within the
  array, or evaluate a draw whose product is exact (one half of ten slots).
\<close>

definition selectWinner :: "giveaway \<Rightarrow> real \<Rightarrow> string option" where
  "selectWinner g rnd =
     (if allUsers g = [] then None
      else if weightedEntries g = [] then None
      else
        let randomIndex = nat \<lfloor>rnd * of_nat (length (weightedEntries g))\<rfloor>
        in if randomIndex < length (weightedEntries g)
           then Some (weightedEntries g ! randomIndex) else None)"

section \<open>Admin commands\<close>

text \<open>
  The branches of the \<open>giveaway\<close> slash command, after the administrator check.
\<close>

datatype endReply = EndNoActiveGiveaway | EndNoEntries | EndWinner string int int nat

text \<open>\<open>if (!winner)\<close> holds for \<open>null\<close> and for the empty string.\<close>

definition giveaway_end :: "real \<Rightarrow> registry \<Rightarrow> string \<Rightarrow> registry \<times> endReply" where
  "giveaway_end rnd reg c =
     (case getGiveaway reg c of
        None \<Rightarrow> (reg, EndNoActiveGiveaway)
      | Some g0 \<Rightarrow>
          if \<not> isActive g0 then (reg, EndNoActiveGiveaway)
          else
            let g = g0\<lparr>isActive := False\<rparr>;
                reg1 = reg(c \<mapsto> g)
            in (case selectWinner g rnd of
                  None \<Rightarrow> (reg1, EndNoEntries)
                | Some winner \<Rightarrow>
                    if winner = [] then (reg1, EndNoEntries)
                    else
                      let totalEntries =
                            foldl (\<lambda>sum userId. roundToDouble (sum + getTotalEntries g userId))
                              0 (allUsers g);
                          winnerEntries = getTotalEntries g winner
                      in (reg1(c := None),
                          EndWinner winner winnerEntries totalEntries (length (allUsers g)))))"

datatype setReply = SetUsage | SetInvalid | SetNoActiveGiveaway | SetDone

text \<open>
  \<open>set-cap\<close>: \<open>capArg\<close> is \<open>None\<close> when the argument is missing, otherwise the result of
  \<open>parseInt\<close> on it, with \<open>None\<close> for \<open>NaN\<close>.
\<close>

definition giveaway_set_cap :: "registry \<Rightarrow> string \<Rightarrow> int option option \<Rightarrow> registry \<times> setReply" where
  "giveaway_set_cap reg c capArg =
     (case capArg of
        None \<Rightarrow> (reg, SetUsage)
      | Some None \<Rightarrow> (reg, SetInvalid)
      | Some (Some cap) \<Rightarrow>
          if cap \<le> 0 then (reg, SetInvalid)
          else
            (case getGiveaway reg c of
               None \<Rightarrow> (reg, SetNoActiveGiveaway)
             | Some g \<Rightarrow>
                 if \<not> isActive g then (reg, SetNoActiveGiveaway)
                 else (reg(c \<mapsto> g\<lparr>tipEntryCap := cap\<rparr>), SetDone)))"



text \<open>The periodic clean-up (\<open>setInterval\<close>, every minute).\<close>

definition sweep :: "int \<Rightarrow> registry \<Rightarrow> registry" where
  "sweep now reg =
     (\<lambda>c. case reg c of
            None \<Rightarrow> None
          | Some g \<Rightarrow> if isActive g \<and> hasEnded now g then Some (g\<lparr>isActive := False\<rparr>) else Some g)"

text \<open>
  A run of tip events, handled one at a time; an exception thrown by a handler ends the run.
\<close>

fun onTips :: "string \<Rightarrow> registry \<Rightarrow> (int \<times> tipEvent) list \<Rightarrow> error + registry" where
  "onTips botId reg [] = Inr reg"
| "onTips botId reg ((now, ev) # evs) =
     (case onTip botId now reg ev of
        Inl e \<Rightarrow> Inl e
      | Inr (reg', r) \<Rightarrow> onTips botId reg' evs)"

section \<open>The duration grammar of the specification\<close>

text \<open>
  The specification gives the grammar of a duration as \<open>^\d+[mhd]$\<close>, case-insensitive: one
  or more decimal digits followed by one letter for minutes, hours or days.  The two
  definitions here follow these words; they are compared below with what \<open>createGiveaway\<close>
  and the \<open>create\<close> branch of the first version compute.
\<close>

definition specDurationGrammar :: "string \<Rightarrow> bool" where
  "specDurationGrammar s =
     (\<exists>digits unit. s = digits @ [unit] \<and> digits \<noteq> [] \<and>
        (\<forall>c \<in> set digits. c \<in> set ''0123456789'') \<and> unit \<in> set ''mhdMHD'')"

definition specUnitMs :: "char \<Rightarrow> int" where
  "specUnitMs unit =
     (if unit \<in> set ''mM'' then 60 * 1000
      else if unit \<in> set ''hH'' then 60 * 60 * 1000
      else 24 * 60 * 60 * 1000)"

section \<open>Invariants and examples\<close>

text \<open>The cap invariant of one giveaway.\<close>

definition withinCap :: "giveaway \<Rightarrow> bool" where
  "withinCap g = (\<forall>p. 0 \<le> getOrZero (tipEntries g) p \<and> getOrZero (tipEntries g) p \<le> tipEntryCap g)"

text \<open>
  Every key of either ledger stands for at least one entry: the state in which the handlers
  keep the ledgers.
\<close>

definition ledgerPositive :: "giveaway \<Rightarrow> bool" where
  "ledgerPositive g =
     ((\<forall>(k, v) \<in> set (reactionEntries g). 1 \<le> v) \<and> (\<forall>(k, v) \<in> set (tipEntries g). 1 \<le> v))"

text \<open>
  The three operations of the runtime at the inputs of the examples below, as JavaScript and
  \<open>viem\<close> compute them: \<open>0.5 / 3000\<close> is the double \<open>6148914691236517 / 2^65\<close>, which prints
  as \<open>0.00016666666666666666\<close> and is read by \<open>parseEther\<close> as 166666666666667 wei;
  \<open>50 / 3000\<close> is the double \<open>4803839602528529 / 2^58\<close>, which prints as
  \<open>0.016666666666666666\<close> and is read as 16666666666666666 wei; \<open>0 / 3000\<close> is 0, which
  prints as \<open>0\<close> and is read as 0; and \<open>1e-323 / 3000\<close>, where \<open>1e-323\<close> is the double
  \<open>2^-1073\<close>, is below every positive double and gives 0.  No other input is used.
\<close>

definition exampleRuntime :: runtime where
  "exampleRuntime =
     \<lparr>numberDivide = (\<lambda>x y.
        if x = Num (1 / 2) \<and> y = Num 3000 then Num (6148914691236517 / 2 ^ 65)
        else if x = Num 50 \<and> y = Num 3000 then Num (4803839602528529 / 2 ^ 58)
        else if x = Num 0 \<and> y = Num 3000 then Num 0
        else if x = Num (1 / 2 ^ 1073) \<and> y = Num 3000 then Num 0
        else NaN),
      numberToString = (\<lambda>x.
        if x = Num (6148914691236517 / 2 ^ 65) then ''0.00016666666666666666''
        else if x = Num (4803839602528529 / 2 ^ 58) then ''0.016666666666666666''
        else if x = Num 0 then ''0''
        else ''NaN''),
      parseEther = (\<lambda>s.
        if s = ''0.00016666666666666666'' then Some 166666666666667
        else if s = ''0.016666666666666666'' then Some 16666666666666666
        else if s = ''0'' then Some 0
        else None)\<rparr>"

text \<open>A giveaway, a tip and a reaction on which the theorems below are instantiated.\<close>

definition exampleGiveaway :: giveaway where
  "exampleGiveaway =
     \<lparr>channelId = ''c'', prize = ''100 USDC'', startTime = 0, endTime = Some 86400000,
      tipEntryFee = 100, tipEntryCap = 10, tipEntries = [], reactionEntries = [],
      isActive = True, announcementMessageId = Some ''m''\<rparr>"

definition exampleTip :: "string \<Rightarrow> int \<Rightarrow> tipEvent" where
  "exampleTip u a = \<lparr>tipChannelId = ''c'', receiverAddress = ''bot'', senderAddress = u, amount = a\<rparr>"

definition exampleReaction :: "string \<Rightarrow> reactionEvent" where
  "exampleReaction u = \<lparr>reaction = ''gift'', reactionChannelId = ''c'', messageId = ''m'', userId = u\<rparr>"

text \<open>The ledger with nine entries for one participant and one for another, and a ledger
  whose only key stands for no entry.\<close>

definition exampleLedger :: giveaway where
  "exampleLedger =
     exampleGiveaway\<lparr>reactionEntries := [(''alice'', 1), (''bob'', 1)], tipEntries := [(''alice'', 8)]\<rparr>"


section \<open>Auxiliary facts\<close>

subsection \<open>Ledger reads and writes\<close>

lemma getOrZero_update:
  "getOrZero (AList.update k v m) p = (if p = k then v else getOrZero m p)"
  by (simp add: getOrZero_def update_conv')

lemma getOrZero_Nil: "getOrZero [] p = 0"
  by (simp add: getOrZero_def)

subsection \<open>Rounding to a double\<close>

lemma roundToDouble_exact: "\<bar>n\<bar> < 2 ^ 53 \<Longrightarrow> roundToDouble n = n"
  by (simp add: roundToDouble_def)

lemma bitlen_large:
  assumes "(2::int) ^ 53 \<le> m"
  shows "54 \<le> bitlen m"
proof -
  have m: "0 < m" using assms by (rule less_le_trans [rotated]) simp
  from bitlen_bounds [OF m] have "m < 2 ^ nat (bitlen m)" by simp
  with assms have "(2::int) ^ 53 < 2 ^ nat (bitlen m)" by linarith
  then have "53 < nat (bitlen m)" by (rule power_less_imp_less_exp [rotated]) simp
  then show ?thesis by linarith
qed

lemma mantissa_large:
  assumes "(2::int) ^ 53 \<le> m"
  shows "2 ^ 52 \<le> m div 2 ^ nat (bitlen m - 53)"
proof -
  have m: "0 < m" using assms by (rule less_le_trans [rotated]) simp
  from bitlen_large [OF assms] have b: "54 \<le> bitlen m" .
  then have "nat (bitlen m - 1) = 52 + nat (bitlen m - 53)" by linarith
  with bitlen_bounds [OF m] have "(2::int) ^ 52 * 2 ^ nat (bitlen m - 53) \<le> m"
    by (simp add: power_add)
  then have "((2::int) ^ 52 * 2 ^ nat (bitlen m - 53)) div 2 ^ nat (bitlen m - 53)
      \<le> m div 2 ^ nat (bitlen m - 53)"
    by (rule zdiv_mono1) simp
  then show ?thesis by simp
qed

lemma roundToDouble_magnitude:
  assumes "2 ^ 53 \<le> \<bar>n\<bar>"
  shows "\<exists>k. 2 ^ 53 \<le> k \<and> roundToDouble n = sgn n * k"
proof -
  define e where "e = nat (bitlen \<bar>n\<bar> - 53)"
  define q where "q = \<bar>n\<bar> div 2 ^ e"
  define r where "r = \<bar>n\<bar> mod 2 ^ e"
  define q' where "q' = (if 2 ^ e < 2 * r \<or> (2 * r = 2 ^ e \<and> odd q) then q + 1 else q)"
  have "2 ^ 52 \<le> q" using mantissa_large [OF assms] by (simp add: q_def e_def)
  then have q: "2 ^ 52 \<le> q'" by (simp add: q'_def)
  have "(0::int) \<le> 2 ^ 52" by simp
  with q have q0: "0 \<le> q'" by linarith
  have "1 \<le> e" using bitlen_large [OF assms] by (simp add: e_def)
  then have "(2::int) ^ 1 \<le> 2 ^ e" by (rule power_increasing) simp
  then have e: "(2::int) \<le> 2 ^ e" by simp
  have "(2::int) ^ 52 * 2 \<le> q' * 2 ^ e"
    using q e q0 by (rule mult_mono) simp
  then have "(2::int) ^ 53 \<le> q' * 2 ^ e" by simp
  moreover have "roundToDouble n = sgn n * (q' * 2 ^ e)"
    using assms by (simp add: roundToDouble_def Let_def q'_def r_def q_def e_def)
  ultimately show ?thesis by blast
qed

lemma roundToDouble_large:
  assumes "2 ^ 53 \<le> n"
  shows "2 ^ 53 \<le> roundToDouble n"
proof -
  have "2 ^ 53 \<le> \<bar>n\<bar>" using assms by simp
  from roundToDouble_magnitude [OF this] obtain k where
    k: "2 ^ 53 \<le> k" "roundToDouble n = sgn n * k" by blast
  have "0 < n" using assms by (rule less_le_trans [rotated]) simp
  with k show ?thesis by simp
qed

lemma roundToDouble_pos_iff: "0 < roundToDouble n \<longleftrightarrow> 0 < n"
proof (cases "\<bar>n\<bar> < 2 ^ 53")
  case True
  then show ?thesis by (simp add: roundToDouble_exact)
next
  case False
  then have "2 ^ 53 \<le> \<bar>n\<bar>" by simp
  from roundToDouble_magnitude [OF this] obtain k where
    k: "2 ^ 53 \<le> k" "roundToDouble n = sgn n * k" by blast
  have "(0::int) < 2 ^ 53" by simp
  with k(1) have "0 < k" by linarith
  with k(2) show ?thesis by (simp add: zero_less_mult_iff)
qed

lemma roundToDouble_le_zero_iff: "roundToDouble n \<le> 0 \<longleftrightarrow> n \<le> 0"
  using roundToDouble_pos_iff [of n] by linarith

lemma roundToDouble_less_one_iff: "roundToDouble n < 1 \<longleftrightarrow> n < 1"
  using roundToDouble_pos_iff [of n] by linarith

lemma min_roundToDouble:
  assumes "0 < n" "r < 2 ^ 53"
  shows "min (roundToDouble n) r = min n r"
proof (cases "n < 2 ^ 53")
  case True
  with assms(1) have "\<bar>n\<bar> < 2 ^ 53" by simp
  then show ?thesis by (simp add: roundToDouble_exact)
next
  case False
  then have n: "2 ^ 53 \<le> n" by simp
  from roundToDouble_large [OF n] n assms(2) show ?thesis by simp
qed

text \<open>The values of the rounding that the examples below use.\<close>

lemma roundToDouble_examples:
  "roundToDouble 9007199254740992 = 9007199254740992"
  "roundToDouble 9007199254740993 = 9007199254740992"
  "roundToDouble 9007199254740995 = 9007199254740996"
  "roundToDouble 9007199254740996 = 9007199254740996"
  "roundToDouble 9007199254740998 = 9007199254740998"
  "roundToDouble 9007199254740999 = 9007199254741000"
  "roundToDouble 1152921504606846976 = 1152921504606846976"
  by code_simp+

subsection \<open>Truncating and flooring division\<close>

lemma div_ge_one_sgn:
  fixes a b :: int
  assumes "1 \<le> a div b"
  shows "sgn a = sgn b"
proof (cases "b > 0")
  case True
  then have "b \<le> a" using assms pos_imp_zdiv_pos_iff [of b a] by simp
  with True show ?thesis by simp
next
  case False
  have "b \<noteq> 0" using assms by (cases "b = 0") auto
  with False have b: "b < 0" by simp
  have "a div b = (- a) div (- b)" by simp
  then have "0 < (- a) div (- b)" using assms by simp
  then have "- b \<le> - a" using b pos_imp_zdiv_pos_iff [of "- b" "- a"] by simp
  with b show ?thesis by simp
qed

lemma sdiv_eq_div_if_ge_one:
  fixes a b :: int
  assumes "1 \<le> a div b"
  shows "a sdiv b = a div b"
  using div_ge_one_sgn [OF assms] by (simp add: signed_divide_int_eq_divide_int)

lemma sdiv_less_one_iff:
  fixes a b :: int
  assumes "b \<noteq> 0"
  shows "a sdiv b < 1 \<longleftrightarrow> a div b < 1"
proof
  assume "a sdiv b < 1"
  then show "a div b < 1"
    using sdiv_eq_div_if_ge_one [of a b] by (cases "1 \<le> a div b") auto
next
  assume lt: "a div b < 1"
  show "a sdiv b < 1"
  proof (cases "a div b = 0")
    case False
    with lt have "a div b \<le> - 1" by simp
    then show ?thesis by (simp add: signed_divide_int_eq_divide_int)
  next
    case True
    have "sgn a = sgn b \<or> a = 0"
      using True assms by (auto simp add: zdiv_eq_0_iff)
    then show ?thesis using True assms by (auto simp add: signed_divide_int_eq_divide_int)
  qed
qed

subsection \<open>Tips and the cap\<close>

lemma addTipEntry_active:
  assumes "reg c = Some g" "isActive g"
  shows "addTipEntry reg c u n =
     (if tipEntryCap g - getOrZero (tipEntries g) u \<le> 0 then (reg, 0)
      else (reg(c \<mapsto> g\<lparr>tipEntries := AList.update u
              (roundToDouble (getOrZero (tipEntries g) u +
                 min n (roundToDouble (tipEntryCap g - getOrZero (tipEntries g) u))))
              (tipEntries g)\<rparr>),
            min n (roundToDouble (tipEntryCap g - getOrZero (tipEntries g) u))))"
  using assms by (simp add: addTipEntry_def Let_def roundToDouble_le_zero_iff)

lemma onTip_active:
  assumes "receiverAddress ev = botId" "reg (tipChannelId ev) = Some g" "isActive g"
      and "\<not> hasEnded now g" "tipEntryFee g \<noteq> 0"
  shows "onTip botId now reg ev =
     (if amount ev div tipEntryFee g < 1 then Inr (reg, TipTooSmall)
      else if tipEntryCap g - getOrZero (tipEntries g) (senderAddress ev) \<le> 0
        then Inr (reg, TipCapReached)
      else Inr (reg(tipChannelId ev \<mapsto> g\<lparr>tipEntries := AList.update (senderAddress ev)
              (roundToDouble (getOrZero (tipEntries g) (senderAddress ev) +
                 min (roundToDouble (amount ev div tipEntryFee g))
                     (roundToDouble
                        (tipEntryCap g - getOrZero (tipEntries g) (senderAddress ev)))))
              (tipEntries g)\<rparr>),
            TipCredited (min (roundToDouble (amount ev div tipEntryFee g))
                     (roundToDouble
                        (tipEntryCap g - getOrZero (tipEntries g) (senderAddress ev))))))"
proof (cases "amount ev div tipEntryFee g < 1")
  case True
  then have "amount ev sdiv tipEntryFee g < 1"
    using assms(5) by (simp add: sdiv_less_one_iff)
  then have "roundToDouble (amount ev sdiv tipEntryFee g) < 1"
    by (simp add: roundToDouble_less_one_iff)
  with True assms show ?thesis
    by (simp add: onTip_def getGiveaway_def Let_def)
next
  case False
  then have ge: "1 \<le> amount ev div tipEntryFee g" by simp
  then have eq: "amount ev sdiv tipEntryFee g = amount ev div tipEntryFee g"
    by (rule sdiv_eq_div_if_ge_one)
  have pot: "\<not> roundToDouble (amount ev div tipEntryFee g) < 1"
    using False by (simp add: roundToDouble_less_one_iff)
  have "min (roundToDouble (amount ev div tipEntryFee g))
          (roundToDouble (tipEntryCap g - getOrZero (tipEntries g) (senderAddress ev))) \<noteq> 0"
    if "\<not> tipEntryCap g - getOrZero (tipEntries g) (senderAddress ev) \<le> 0"
  proof -
    have "0 < roundToDouble (tipEntryCap g - getOrZero (tipEntries g) (senderAddress ev))"
      using that by (simp add: roundToDouble_pos_iff)
    with pot show ?thesis by (simp add: min_def)
  qed
  then show ?thesis
    using assms False pot
    by (simp add: onTip_def getGiveaway_def Let_def eq
        addTipEntry_active [of reg "tipChannelId ev" g])
qed

lemma onTip_cases:
  assumes "onTip botId now reg ev = Inr (reg', r)"
  shows "reg' = reg \<or>
     (\<exists>g. reg (tipChannelId ev) = Some g \<and> isActive g \<and>
          reg' = reg(tipChannelId ev \<mapsto> g\<lparr>isActive := False\<rparr>)) \<or>
     (\<exists>g n. reg (tipChannelId ev) = Some g \<and> isActive g \<and> 1 \<le> n \<and>
          0 < tipEntryCap g - getOrZero (tipEntries g) (senderAddress ev) \<and>
          reg' = reg(tipChannelId ev \<mapsto> g\<lparr>tipEntries := AList.update (senderAddress ev)
              (roundToDouble (getOrZero (tipEntries g) (senderAddress ev) +
                 min n (roundToDouble
                   (tipEntryCap g - getOrZero (tipEntries g) (senderAddress ev)))))
              (tipEntries g)\<rparr>))"
proof (cases "receiverAddress ev = botId \<and> (\<exists>g. reg (tipChannelId ev) = Some g \<and> isActive g)")
  case False
  with assms show ?thesis
    by (auto simp add: onTip_def getGiveaway_def split: option.splits if_splits)
next
  case True
  then obtain g where g: "receiverAddress ev = botId" "reg (tipChannelId ev) = Some g" "isActive g"
    by blast
  show ?thesis
  proof (cases "hasEnded now g")
    case True
    with g assms show ?thesis by (simp add: onTip_def getGiveaway_def)
  next
    case False
    have fee: "tipEntryFee g \<noteq> 0"
      using assms g False by (auto simp add: onTip_def getGiveaway_def)
    note eq = assms [unfolded onTip_active [of ev botId reg g now, OF g False fee]]
    show ?thesis
    proof (cases "amount ev div tipEntryFee g < 1 \<or>
        tipEntryCap g - getOrZero (tipEntries g) (senderAddress ev) \<le> 0")
      case True
      with eq have "reg' = reg" by (auto split: if_splits)
      then show ?thesis by simp
    next
      case False
      with eq have "reg' = reg(tipChannelId ev \<mapsto> g\<lparr>tipEntries := AList.update (senderAddress ev)
              (roundToDouble (getOrZero (tipEntries g) (senderAddress ev) +
                 min (roundToDouble (amount ev div tipEntryFee g))
                   (roundToDouble
                      (tipEntryCap g - getOrZero (tipEntries g) (senderAddress ev)))))
              (tipEntries g)\<rparr>)"
        by (auto split: if_splits)
      moreover have "1 \<le> roundToDouble (amount ev div tipEntryFee g)"
        using False roundToDouble_less_one_iff [of "amount ev div tipEntryFee g"] by linarith
      moreover have "0 < tipEntryCap g - getOrZero (tipEntries g) (senderAddress ev)"
        using False by auto
      ultimately show ?thesis using g by blast
    qed
  qed
qed

text \<open>
  With a cap below \<open>2^53\<close> and a stored count that is not negative, the arithmetic of
  \<open>addTipEntry\<close> is exact.
\<close>

lemma credit_exact:
  fixes cap cur n :: int
  assumes "0 \<le> cur" "cap < 2 ^ 53" "0 < cap - cur" "1 \<le> n"
  shows "roundToDouble (cap - cur) = cap - cur"
    and "min (roundToDouble n) (cap - cur) = min n (cap - cur)"
    and "roundToDouble (cur + min n (cap - cur)) = cur + min n (cap - cur)"
proof -
  have d: "\<bar>cap - cur\<bar> < 2 ^ 53" using assms by simp
  then show "roundToDouble (cap - cur) = cap - cur" by (rule roundToDouble_exact)
  have "cap - cur < 2 ^ 53" using d by simp
  with assms(4) show "min (roundToDouble n) (cap - cur) = min n (cap - cur)"
    by (simp add: min_roundToDouble)
  have "\<bar>cur + min n (cap - cur)\<bar> < 2 ^ 53" using assms by (simp add: min_def)
  then show "roundToDouble (cur + min n (cap - cur)) = cur + min n (cap - cur)"
    by (rule roundToDouble_exact)
qed

lemma onTip_withinCap:
  assumes inv: "\<forall>c g. reg c = Some g \<longrightarrow> withinCap g \<and> tipEntryCap g < 2 ^ 53"
      and step: "onTip botId now reg ev = Inr (reg', r)"
  shows "\<forall>c g. reg' c = Some g \<longrightarrow> withinCap g \<and> tipEntryCap g < 2 ^ 53"
  using onTip_cases [OF step]
proof (elim disjE exE conjE)
  assume "reg' = reg"
  with inv show ?thesis by simp
next
  fix g
  assume "reg (tipChannelId ev) = Some g" "reg' = reg(tipChannelId ev \<mapsto> g\<lparr>isActive := False\<rparr>)"
  with inv show ?thesis by (auto simp add: withinCap_def)
next
  fix g n
  assume g: "reg (tipChannelId ev) = Some g" and n: "(1::int) \<le> n"
    and rem: "0 < tipEntryCap g - getOrZero (tipEntries g) (senderAddress ev)"
    and reg': "reg' = reg(tipChannelId ev \<mapsto> g\<lparr>tipEntries := AList.update (senderAddress ev)
              (roundToDouble (getOrZero (tipEntries g) (senderAddress ev) +
                 min n (roundToDouble
                   (tipEntryCap g - getOrZero (tipEntries g) (senderAddress ev)))))
              (tipEntries g)\<rparr>)"
  from inv g have wc: "withinCap g" and cap: "tipEntryCap g < 2 ^ 53" by blast+
  from wc have cur: "0 \<le> getOrZero (tipEntries g) (senderAddress ev)"
    by (simp add: withinCap_def)
  note ex = credit_exact [OF cur cap rem n]
  have "withinCap (g\<lparr>tipEntries := AList.update (senderAddress ev)
              (getOrZero (tipEntries g) (senderAddress ev) +
                 min n (tipEntryCap g - getOrZero (tipEntries g) (senderAddress ev)))
              (tipEntries g)\<rparr>)"
    using wc n rem by (auto simp add: withinCap_def getOrZero_update min_def)
  with inv reg' cap show ?thesis by (auto simp add: ex)
qed

lemma onTips_withinCap:
  assumes "\<forall>c g. reg c = Some g \<longrightarrow> withinCap g \<and> tipEntryCap g < 2 ^ 53"
      and "onTips botId reg evs = Inr reg'"
  shows "\<forall>c g. reg' c = Some g \<longrightarrow> withinCap g \<and> tipEntryCap g < 2 ^ 53"
  using assms
proof (induction evs arbitrary: reg)
  case Nil
  then show ?case by simp
next
  case (Cons e evs)
  obtain now ev where e: "e = (now, ev)" by (cases e)
  from Cons.prems(2) obtain reg1 r where
    step: "onTip botId now reg ev = Inr (reg1, r)" and rest: "onTips botId reg1 evs = Inr reg'"
    by (auto simp add: e split: sum.splits)
  from onTip_withinCap [OF Cons.prems(1) step] rest show ?case
    by (rule Cons.IH)
qed

lemma onTip_fee:
  assumes "onTip botId now reg ev = Inr (reg', r)" "reg' c = Some g'"
  shows "\<exists>g. reg c = Some g \<and> tipEntryFee g' = tipEntryFee g \<and> tipEntryCap g' = tipEntryCap g"
  using onTip_cases [OF assms(1)] assms(2)
  by (auto split: if_splits)

lemma onTip_total:
  assumes "\<forall>c g. reg c = Some g \<longrightarrow> tipEntryFee g \<noteq> 0"
  shows "\<exists>reg' r. onTip botId now reg ev = Inr (reg', r)"
  using assms
  by (auto simp add: onTip_def getGiveaway_def Let_def split: option.splits prod.splits)

lemma onTips_total:
  assumes "\<forall>c g. reg c = Some g \<longrightarrow> tipEntryFee g \<noteq> 0"
  shows "\<exists>reg'. onTips botId reg evs = Inr reg'"
  using assms
proof (induction evs arbitrary: reg)
  case Nil
  then show ?case by simp
next
  case (Cons e evs)
  obtain now ev where e: "e = (now, ev)" by (cases e)
  from onTip_total [OF Cons.prems] obtain reg1 r where
    step: "onTip botId now reg ev = Inr (reg1, r)" by blast
  have "\<forall>c g. reg1 c = Some g \<longrightarrow> tipEntryFee g \<noteq> 0"
    using onTip_fee [OF step] Cons.prems by metis
  from Cons.IH [OF this] show ?case by (simp add: e step)
qed

lemma example_run:
  "onTips ''bot'' [''c'' \<mapsto> exampleGiveaway] [(5, exampleTip ''alice'' 1500), (6, exampleTip ''alice'' 300)]
     = Inr [''c'' \<mapsto> exampleGiveaway\<lparr>tipEntries := [(''alice'', 10)]\<rparr>]"
  by (simp add: onTip_def getGiveaway_def hasEnded_def addTipEntry_def getOrZero_def
      exampleGiveaway_def exampleTip_def signed_divide_int_def Let_def roundToDouble_exact)

lemma onTip_capped_sender:
  assumes step: "onTip botId now reg ev = Inr (reg', r)"
      and g: "reg c = Some g" and capped: "tipEntryCap g \<le> getOrZero (tipEntries g) p"
  shows "\<exists>g'. reg' c = Some g' \<and> tipEntryCap g' = tipEntryCap g \<and>
           getOrZero (tipEntries g') p = getOrZero (tipEntries g) p"
  using onTip_cases [OF step]
proof (elim disjE exE conjE)
  assume "reg' = reg"
  with g show ?thesis by simp
next
  fix h
  assume "reg (tipChannelId ev) = Some h" "reg' = reg(tipChannelId ev \<mapsto> h\<lparr>isActive := False\<rparr>)"
  with g show ?thesis by (cases "tipChannelId ev = c") auto
next
  fix h n
  assume h: "reg (tipChannelId ev) = Some h"
    and rem: "0 < tipEntryCap h - getOrZero (tipEntries h) (senderAddress ev)"
    and reg': "reg' = reg(tipChannelId ev \<mapsto> h\<lparr>tipEntries := AList.update (senderAddress ev)
              (roundToDouble (getOrZero (tipEntries h) (senderAddress ev) +
                 min n (roundToDouble
                   (tipEntryCap h - getOrZero (tipEntries h) (senderAddress ev)))))
              (tipEntries h)\<rparr>)"
  show ?thesis
  proof (cases "tipChannelId ev = c")
    case False
    with g reg' show ?thesis by simp
  next
    case True
    with g h have "h = g" by simp
    with rem capped have "senderAddress ev \<noteq> p" by auto
    with True reg' \<open>h = g\<close> show ?thesis by (simp add: getOrZero_update)
  qed
qed

lemma onTips_capped_sender:
  assumes "onTips botId reg evs = Inr reg'"
      and "reg c = Some g" and "tipEntryCap g \<le> getOrZero (tipEntries g) p"
  shows "\<exists>g'. reg' c = Some g' \<and> tipEntryCap g' = tipEntryCap g \<and>
           getOrZero (tipEntries g') p = getOrZero (tipEntries g) p"
  using assms
proof (induction evs arbitrary: reg g)
  case Nil
  then show ?case by simp
next
  case (Cons e evs)
  obtain now ev where e: "e = (now, ev)" by (cases e)
  from Cons.prems(1) obtain reg1 r where
    step: "onTip botId now reg ev = Inr (reg1, r)" and rest: "onTips botId reg1 evs = Inr reg'"
    by (auto simp add: e split: sum.splits)
  from onTip_capped_sender [OF step Cons.prems(2,3)] obtain g1 where
    g1: "reg1 c = Some g1" "tipEntryCap g1 = tipEntryCap g"
        "getOrZero (tipEntries g1) p = getOrZero (tipEntries g) p"
    by blast
  with Cons.prems(3) have "tipEntryCap g1 \<le> getOrZero (tipEntries g1) p" by simp
  from Cons.IH [OF rest g1(1) this] g1 show ?case by simp
qed

subsection \<open>The set of users and the weighted array\<close>

lemma fold_add_set:
  "set (fold (\<lambda>x acc. if x \<in> set acc then acc else acc @ [x]) xs acc) = set acc \<union> set xs"
  by (induction xs arbitrary: acc) auto

lemma fold_add_distinct:
  "distinct acc \<Longrightarrow> distinct (fold (\<lambda>x acc. if x \<in> set acc then acc else acc @ [x]) xs acc)"
  by (induction xs arbitrary: acc) auto

lemma set_newSet: "set (newSet xs) = set xs"
  by (simp add: newSet_def fold_add_set)

lemma distinct_newSet: "distinct (newSet xs)"
  by (simp add: newSet_def fold_add_distinct)

lemma set_allUsers:
  "set (allUsers g) = fst ` set (reactionEntries g) \<union> fst ` set (tipEntries g)"
  by (simp add: allUsers_def set_newSet)

lemma distinct_allUsers: "distinct (allUsers g)"
  by (simp add: allUsers_def distinct_newSet)

lemma count_list_replicate: "count_list (replicate n x) y = (if x = y then n else 0)"
  by (induction n) auto

lemma count_list_pool:
  "distinct us \<Longrightarrow>
   count_list (concat (map (\<lambda>u. replicate (f u) u) us)) p = (if p \<in> set us then f p else 0)"
  by (induction us) (auto simp add: count_list_replicate)

lemma length_pool:
  "length (concat (map (\<lambda>u. replicate (f u) u) us)) = sum_list (map f us)"
  by (induction us) auto


lemma count_weightedEntries:
  "count_list (weightedEntries g) p =
     (if p \<in> set (allUsers g) then nat (getTotalEntries g p) else 0)"
  by (simp add: weightedEntries_def count_list_pool distinct_allUsers)

lemma length_weightedEntries:
  "length (weightedEntries g) = (\<Sum>p\<leftarrow>allUsers g. nat (getTotalEntries g p))"
  by (simp add: weightedEntries_def length_pool)


lemma sum_list_nat_int:
  "(\<forall>x \<in> set xs. 0 \<le> f x) \<Longrightarrow> int (\<Sum>x\<leftarrow>xs. nat (f x)) = (\<Sum>x\<leftarrow>xs. f x)"
  by (induction xs) auto





lemma set_update_cases:
  "(a, b) \<in> set (AList.update k v m) \<Longrightarrow> (a, b) = (k, v) \<or> (a, b) \<in> set m"
  by (induction m) (auto split: if_splits)

lemma getOrZero_nonneg:
  assumes "\<forall>(k, v) \<in> set m. 1 \<le> v"
  shows "0 \<le> getOrZero m p"
proof (cases "map_of m p")
  case None
  then show ?thesis by (simp add: getOrZero_def)
next
  case (Some v)
  then have "(p, v) \<in> set m" by (rule map_of_SomeD)
  with assms have "1 \<le> v" by auto
  with Some show ?thesis by (simp add: getOrZero_def)
qed



lemma ledgerPositive_update_tip:
  assumes "ledgerPositive g" "1 \<le> v"
  shows "ledgerPositive (g\<lparr>tipEntries := AList.update u v (tipEntries g)\<rparr>)"
  using assms by (auto simp add: ledgerPositive_def dest: set_update_cases)

lemma ledgerPositive_update_reaction:
  assumes "ledgerPositive g" "1 \<le> v"
  shows "ledgerPositive (g\<lparr>reactionEntries := AList.update u v (reactionEntries g)\<rparr>)"
  using assms by (auto simp add: ledgerPositive_def dest: set_update_cases)

lemma onTip_ledgerPositive:
  assumes inv: "\<forall>c g. reg c = Some g \<longrightarrow> ledgerPositive g"
      and step: "onTip botId now reg ev = Inr (reg', r)"
  shows "\<forall>c g. reg' c = Some g \<longrightarrow> ledgerPositive g"
  using onTip_cases [OF step]
proof (elim disjE exE conjE)
  assume "reg' = reg"
  with inv show ?thesis by simp
next
  fix g
  assume "reg (tipChannelId ev) = Some g" "reg' = reg(tipChannelId ev \<mapsto> g\<lparr>isActive := False\<rparr>)"
  with inv show ?thesis by (auto simp add: ledgerPositive_def)
next
  fix g n
  assume g: "reg (tipChannelId ev) = Some g" and n: "(1::int) \<le> n"
    and rem: "0 < tipEntryCap g - getOrZero (tipEntries g) (senderAddress ev)"
    and reg': "reg' = reg(tipChannelId ev \<mapsto> g\<lparr>tipEntries := AList.update (senderAddress ev)
              (roundToDouble (getOrZero (tipEntries g) (senderAddress ev) +
                 min n (roundToDouble
                   (tipEntryCap g - getOrZero (tipEntries g) (senderAddress ev)))))
              (tipEntries g)\<rparr>)"
  from inv g have pos: "ledgerPositive g" by blast
  then have cur: "0 \<le> getOrZero (tipEntries g) (senderAddress ev)"
    by (simp add: ledgerPositive_def getOrZero_nonneg)
  have "0 < roundToDouble (tipEntryCap g - getOrZero (tipEntries g) (senderAddress ev))"
    using rem by (simp add: roundToDouble_pos_iff)
  with n cur have "0 < getOrZero (tipEntries g) (senderAddress ev) +
      min n (roundToDouble (tipEntryCap g - getOrZero (tipEntries g) (senderAddress ev)))"
    by (simp add: min_def)
  then have "0 < roundToDouble (getOrZero (tipEntries g) (senderAddress ev) +
      min n (roundToDouble (tipEntryCap g - getOrZero (tipEntries g) (senderAddress ev))))"
    by (simp only: roundToDouble_pos_iff)
  then have "1 \<le> roundToDouble (getOrZero (tipEntries g) (senderAddress ev) +
      min n (roundToDouble (tipEntryCap g - getOrZero (tipEntries g) (senderAddress ev))))"
    by linarith
  from ledgerPositive_update_tip [OF pos this] inv reg' show ?thesis by auto
qed

lemma onReaction_ledgerPositive:
  assumes inv: "\<forall>c g. reg c = Some g \<longrightarrow> ledgerPositive g"
  shows "\<forall>c g. onReaction gift now reg ev c = Some g \<longrightarrow> ledgerPositive g"
proof (cases "reg (reactionChannelId ev)")
  case None
  with inv show ?thesis by (simp add: onReaction_def getGiveaway_def)
next
  case (Some h)
  with inv have pos: "ledgerPositive h" by blast
  then have "0 \<le> getOrZero (reactionEntries h) (userId ev)"
    by (simp add: ledgerPositive_def getOrZero_nonneg)
  then have "0 < getOrZero (reactionEntries h) (userId ev) + 1" by simp
  then have "0 < roundToDouble (getOrZero (reactionEntries h) (userId ev) + 1)"
    by (simp only: roundToDouble_pos_iff)
  then have "1 \<le> roundToDouble (getOrZero (reactionEntries h) (userId ev) + 1)" by linarith
  from ledgerPositive_update_reaction [OF pos this]
  have new: "ledgerPositive (h\<lparr>reactionEntries := AList.update (userId ev)
      (roundToDouble (getOrZero (reactionEntries h) (userId ev) + 1)) (reactionEntries h)\<rparr>)" .
  have off: "ledgerPositive (h\<lparr>isActive := False\<rparr>)"
    using pos by (simp add: ledgerPositive_def)
  show ?thesis
    using Some inv new off
    by (auto simp add: onReaction_def getGiveaway_def addReactionEntry_def Let_def)
qed

lemma createGiveaway_Inr:
  assumes "createGiveaway rt price now eventId reg c prz d fee cap = Inr reg'"
  shows "\<exists>digits unit w.
           durationMatch d = Some (digits, unit) \<and> usdToWei rt price fee = Inr w \<and>
           \<not> (\<exists>g. reg c = Some g \<and> isActive g) \<and>
           reg' = reg(c \<mapsto>
             \<lparr>channelId = c, prize = prz, startTime = now,
              endTime = newDate (now + msDuration (parseInt digits) (toLowerCase unit)),
              tipEntryFee = w, tipEntryCap = cap, tipEntries = [],
              reactionEntries = [], isActive = True,
              announcementMessageId = Some eventId\<rparr>)"
  using assms
  by (auto simp add: createGiveaway_def getGiveaway_def Let_def
      split: option.splits if_splits sum.splits)

lemma createGiveaway_ledgerPositive:
  assumes inv: "\<forall>c g. reg c = Some g \<longrightarrow> ledgerPositive g"
      and new: "createGiveaway rt price now eventId reg c prz d fee cap = Inr reg'"
  shows "\<forall>c g. reg' c = Some g \<longrightarrow> ledgerPositive g"
proof -
  from createGiveaway_Inr [OF new] obtain g' where
    "reg' = reg(c \<mapsto> g')" "tipEntries g' = []" "reactionEntries g' = []"
    by fastforce
  then show ?thesis using inv by (auto simp add: ledgerPositive_def)
qed




lemma exampleLedger_users: "allUsers exampleLedger = [''alice'', ''bob'']"
  by (simp add: allUsers_def newSet_def exampleLedger_def)

lemma exampleLedger_totals:
  "getTotalEntries exampleLedger ''alice'' = 9" "getTotalEntries exampleLedger ''bob'' = 1"
  by (simp_all add: getTotalEntries_def getOrZero_def exampleLedger_def roundToDouble_exact)

lemma exampleLedger_pool:
  "weightedEntries exampleLedger = replicate 9 ''alice'' @ [''bob'']"
  by (simp add: weightedEntries_def exampleLedger_users exampleLedger_totals)




subsection \<open>Parsing the duration\<close>

lemma unit_not_digit: "u \<in> set ''hdmHDM'' \<Longrightarrow> \<not> isDigit u"
  by (auto simp add: isDigit_def)

lemma durationMatch_SomeD:
  assumes m: "durationMatch s = Some (ds, u)"
  shows "s = ds @ [u] \<and> ds \<noteq> [] \<and> (\<forall>c \<in> set ds. isDigit c) \<and> u \<in> set ''hdmHDM''"
proof -
  obtain v where rest: "dropWhile isDigit s = [v]"
    using m by (cases "dropWhile isDigit s"; cases "tl (dropWhile isDigit s)")
      (simp_all add: durationMatch_def Let_def)
  from m rest have ne: "takeWhile isDigit s \<noteq> []" and v: "v \<in> set ''hdmHDM''"
    and eq: "(takeWhile isDigit s, v) = (ds, u)"
    by (simp_all add: durationMatch_def Let_def split: if_splits)
  have "s = takeWhile isDigit s @ dropWhile isDigit s" by simp
  with rest eq have "s = ds @ [u]" by simp
  moreover have "\<forall>c \<in> set ds. isDigit c" using eq set_takeWhileD by fastforce
  ultimately show ?thesis using ne v eq by simp
qed

lemma durationMatch_SomeI:
  assumes "s = ds @ [u]" "ds \<noteq> []" "\<forall>c \<in> set ds. isDigit c" "u \<in> set ''hdmHDM''"
  shows "durationMatch s = Some (ds, u)"
proof -
  have nd: "\<not> isDigit u" using assms(4) by (rule unit_not_digit)
  have t: "takeWhile isDigit s = ds"
    unfolding assms(1) using assms(3) nd by (simp add: takeWhile_tail)
  have d: "dropWhile isDigit s = [u]"
    unfolding assms(1) using assms(3) nd by simp
  show ?thesis
    unfolding durationMatch_def Let_def t d using assms(2,4) by simp
qed

lemma durationMatch_Some_iff:
  "durationMatch s = Some (ds, u) \<longleftrightarrow>
     s = ds @ [u] \<and> ds \<noteq> [] \<and> (\<forall>c \<in> set ds. isDigit c) \<and> u \<in> set ''hdmHDM''"
  using durationMatch_SomeD [of s ds u] durationMatch_SomeI [of s ds u] by blast

lemma specDurationGrammar_iff:
  "specDurationGrammar s \<longleftrightarrow> (\<exists>ds u. durationMatch s = Some (ds, u))"
proof -
  have units: "u \<in> set ''mhdMHD'' \<longleftrightarrow> u \<in> set ''hdmHDM''" for u :: char
    by auto
  show ?thesis
    unfolding durationMatch_Some_iff specDurationGrammar_def isDigit_def units ..
qed

lemma durationMatch_None_iff: "durationMatch s = None \<longleftrightarrow> \<not> specDurationGrammar s"
  unfolding specDurationGrammar_iff by (cases "durationMatch s") auto

lemma msDuration_spec:
  assumes "u \<in> set ''hdmHDM''"
  shows "msDuration v (toLowerCase u) = v * specUnitMs u"
proof -
  from assms consider "u = CHR ''h''" | "u = CHR ''d''" | "u = CHR ''m''"
    | "u = CHR ''H''" | "u = CHR ''D''" | "u = CHR ''M''"
    by auto
  then show ?thesis
    by cases (simp_all add: msDuration_def toLowerCase_def specUnitMs_def)
qed

lemma usdToWei_error: "usdToWei rt price usd = Inl e \<Longrightarrow> e = InvalidDecimalNumber"
  by (auto simp add: usdToWei_def Let_def split: option.splits)

lemma createGiveaway_InvalidDuration_iff:
  "createGiveaway rt price now eventId reg c prz d fee cap = Inl InvalidDuration
     \<longleftrightarrow> durationMatch d = None"
proof (cases "durationMatch d")
  case None
  then show ?thesis by (simp add: createGiveaway_def)
next
  case (Some m)
  obtain ds u where m: "m = (ds, u)" by (cases m)
  have "usdToWei rt price fee \<noteq> Inl InvalidDuration"
    using usdToWei_error [of rt price fee InvalidDuration] by auto
  with Some m show ?thesis
    by (auto simp add: createGiveaway_def Let_def split: sum.splits)
qed

lemma createGiveaway_accepts:
  assumes "durationMatch d = Some (ds, u)" "\<not> (\<exists>g. reg c = Some g \<and> isActive g)"
      and "usdToWei rt price fee = Inr w"
  shows "createGiveaway rt price now eventId reg c prz d fee cap =
     Inr (reg(c \<mapsto>
       \<lparr>channelId = c, prize = prz, startTime = now,
        endTime = newDate (now + msDuration (parseInt ds) (toLowerCase u)),
        tipEntryFee = w, tipEntryCap = cap, tipEntries = [],
        reactionEntries = [], isActive = True,
        announcementMessageId = Some eventId\<rparr>))"
proof (cases "reg c")
  case None
  with assms show ?thesis by (simp add: createGiveaway_def getGiveaway_def Let_def)
next
  case (Some g)
  with assms(2) have "\<not> isActive g" by simp
  with Some assms show ?thesis by (simp add: createGiveaway_def getGiveaway_def Let_def)
qed

lemma createGiveaway_endTime:
  assumes "createGiveaway rt price now eventId reg c prz d fee cap = Inr reg'"
  shows "\<exists>digits unit g. d = digits @ [unit] \<and> unit \<in> set ''hdmHDM'' \<and> reg' c = Some g \<and>
           startTime g = now \<and> endTime g = newDate (now + parseInt digits * specUnitMs unit)"
proof -
  from createGiveaway_Inr [OF assms] obtain digits unit w where
    m: "durationMatch d = Some (digits, unit)" and
    reg': "reg' = reg(c \<mapsto>
             \<lparr>channelId = c, prize = prz, startTime = now,
              endTime = newDate (now + msDuration (parseInt digits) (toLowerCase unit)),
              tipEntryFee = w, tipEntryCap = cap, tipEntries = [],
              reactionEntries = [], isActive = True,
              announcementMessageId = Some eventId\<rparr>)"
    by blast
  from durationMatch_SomeD [OF m] have d: "d = digits @ [unit]" and u: "unit \<in> set ''hdmHDM''"
    by simp_all
  from reg' show ?thesis
    unfolding msDuration_spec [OF u] using d u by simp
qed

lemma parseInt_examples: "parseInt ''24'' = 24" "parseInt ''2'' = 2"
  by (simp_all add: parseInt_def digitValue_def)

lemma durationMatch_examples:
  "durationMatch ''24h'' = Some (''24'', CHR ''h'')" "durationMatch ''2d'' = Some (''2'', CHR ''d'')"
  "durationMatch ''x'' = None" "durationMatch ''24'' = None"
  by (simp_all add: durationMatch_def isDigit_def)

lemma usdToWei_example: "usdToWei exampleRuntime (Num 3000) (Num (1 / 2)) = Inr 166666666666667"
  by (simp add: usdToWei_def exampleRuntime_def)


lemma durationMatchInline_eq:
  "durationMatchInline s =
     (case durationMatch s of
        None \<Rightarrow> None
      | Some (ds, u) \<Rightarrow> if u \<in> set ''hdm'' then Some (ds, u) else None)"
proof (cases "dropWhile isDigit s")
  case Nil
  show ?thesis unfolding durationMatchInline_def durationMatch_def Let_def Nil by simp
next
  case (Cons u us)
  show ?thesis
    unfolding durationMatchInline_def durationMatch_def Let_def Cons
    by (cases us) auto
qed

lemma durationMatchInline_upper_case:
  "durationMatchInline ''24H'' = None" "durationMatch ''24H'' = Some (''24'', CHR ''H'')"
  by (simp_all add: durationMatchInline_def durationMatch_def isDigit_def)


lemma durationMatchInline_Some_iff:
  "durationMatchInline s = Some (ds, u) \<longleftrightarrow>
     s = ds @ [u] \<and> ds \<noteq> [] \<and> (\<forall>c \<in> set ds. isDigit c) \<and> u \<in> set ''hdm''"
proof (cases "durationMatch s")
  case None
  then have "\<not> (s = ds @ [u] \<and> ds \<noteq> [] \<and> (\<forall>c \<in> set ds. isDigit c) \<and> u \<in> set ''hdmHDM'')"
    using durationMatch_SomeI [of s ds u] by auto
  with None show ?thesis by (auto simp add: durationMatchInline_eq)
next
  case (Some m)
  obtain ds' u' where m: "m = (ds', u')" by (cases m)
  show ?thesis
    using Some m durationMatch_Some_iff [of s ds u] durationMatch_Some_iff [of s ds' u']
    by (auto simp add: durationMatchInline_eq)
qed

text \<open>The grammar of the inline parser in the words of the specification's grammar.\<close>

lemma durationMatchInline_None_iff:
  "durationMatchInline s = None \<longleftrightarrow> \<not> (specDurationGrammar s \<and> last s \<in> set ''mhd'')"
proof (cases "durationMatch s")
  case None
  then show ?thesis by (simp add: durationMatchInline_eq durationMatch_None_iff [symmetric])
next
  case (Some m)
  obtain ds u where m: "m = (ds, u)" by (cases m)
  from Some m have g: "specDurationGrammar s" unfolding specDurationGrammar_iff by blast
  from durationMatch_SomeD [of s ds u] Some m have "last s = u" by simp
  with Some m g show ?thesis by (auto simp add: durationMatchInline_eq)
qed

lemma msDuration_inline:
  assumes "u \<in> set ''hdm''"
  shows "msDuration v u = v * specUnitMs u"
proof -
  from assms consider "u = CHR ''h''" | "u = CHR ''d''" | "u = CHR ''m''"
    by auto
  then show ?thesis
    by cases (simp_all add: msDuration_def specUnitMs_def)
qed

lemma giveaway_create_InvalidDuration_iff:
  assumes "prz \<noteq> []" "d \<noteq> []"
  shows "giveaway_create rt price now eventId reg c prz d fee cap = Inl InvalidDuration
     \<longleftrightarrow> durationMatchInline d = None"
proof (cases "durationMatchInline d")
  case None
  with assms show ?thesis by (simp add: giveaway_create_def)
next
  case (Some m)
  obtain ds u where m: "m = (ds, u)" by (cases m)
  have "usdToWei rt price fee \<noteq> Inl InvalidDuration"
    using usdToWei_error [of rt price fee InvalidDuration] by auto
  with Some m assms show ?thesis
    by (auto simp add: giveaway_create_def Let_def split: sum.splits)
qed

lemma giveaway_create_accepts:
  assumes "prz \<noteq> []" "durationMatchInline d = Some (ds, u)"
      and "\<not> (\<exists>g. reg c = Some g \<and> isActive g)" "usdToWei rt price fee = Inr w"
  shows "giveaway_create rt price now eventId reg c prz d fee cap =
     Inr (reg(c \<mapsto>
       \<lparr>channelId = c, prize = prz, startTime = now,
        endTime = newDate (now + msDuration (parseInt ds) u),
        tipEntryFee = w, tipEntryCap = cap, tipEntries = [],
        reactionEntries = [], isActive = True,
        announcementMessageId = Some eventId\<rparr>))"
proof -
  have d: "d \<noteq> []" using assms(2) by (auto simp add: durationMatchInline_Some_iff)
  show ?thesis
  proof (cases "reg c")
    case None
    with assms d show ?thesis by (simp add: giveaway_create_def getGiveaway_def Let_def)
  next
    case (Some g)
    with assms(3) have "\<not> isActive g" by simp
    with Some assms d show ?thesis by (simp add: giveaway_create_def getGiveaway_def Let_def)
  qed
qed

lemma giveaway_create_Inr:
  assumes "giveaway_create rt price now eventId reg c prz d fee cap = Inr reg'"
  shows "\<exists>digits unit w.
           durationMatchInline d = Some (digits, unit) \<and> usdToWei rt price fee = Inr w \<and>
           reg' = reg(c \<mapsto>
             \<lparr>channelId = c, prize = prz, startTime = now,
              endTime = newDate (now + msDuration (parseInt digits) unit),
              tipEntryFee = w, tipEntryCap = cap, tipEntries = [],
              reactionEntries = [], isActive = True,
              announcementMessageId = Some eventId\<rparr>)"
  using assms
  by (auto simp add: giveaway_create_def getGiveaway_def Let_def
      split: option.splits if_splits sum.splits)

lemma giveaway_create_endTime:
  assumes "giveaway_create rt price now eventId reg c prz d fee cap = Inr reg'"
  shows "\<exists>digits unit g. d = digits @ [unit] \<and> unit \<in> set ''hdm'' \<and> reg' c = Some g \<and>
           startTime g = now \<and> endTime g = newDate (now + parseInt digits * specUnitMs unit)"
proof -
  from giveaway_create_Inr [OF assms] obtain digits unit w where
    m: "durationMatchInline d = Some (digits, unit)" and
    reg': "reg' = reg(c \<mapsto>
             \<lparr>channelId = c, prize = prz, startTime = now,
              endTime = newDate (now + msDuration (parseInt digits) unit),
              tipEntryFee = w, tipEntryCap = cap, tipEntries = [],
              reactionEntries = [], isActive = True,
              announcementMessageId = Some eventId\<rparr>)"
    by blast
  from m have d: "d = digits @ [unit]" and u: "unit \<in> set ''hdm''"
    by (simp_all add: durationMatchInline_Some_iff)
  from reg' show ?thesis
    unfolding msDuration_inline [OF u] using d u by simp
qed

lemma durationMatchInline_examples:
  "durationMatchInline ''24h'' = Some (''24'', CHR ''h'')"
  "durationMatchInline ''2d'' = Some (''2'', CHR ''d'')"
  "durationMatchInline ''x'' = None" "durationMatchInline ''24'' = None"
  by (simp_all add: durationMatchInline_def isDigit_def)
subsection \<open>Ending a giveaway and creating the next one\<close>

lemma giveaway_end_absent:
  assumes "reg c = None"
  shows "giveaway_end rnd reg c = (reg, EndNoActiveGiveaway)"
  using assms by (simp add: giveaway_end_def getGiveaway_def)

lemma giveaway_end_inactive:
  assumes "reg c = Some g" "\<not> isActive g"
  shows "giveaway_end rnd reg c = (reg, EndNoActiveGiveaway)"
  using assms by (simp add: giveaway_end_def getGiveaway_def)

lemma allUsers_isActive: "allUsers (g\<lparr>isActive := b\<rparr>) = allUsers g"
  by (simp add: allUsers_def)

lemma getTotalEntries_isActive: "getTotalEntries (g\<lparr>isActive := b\<rparr>) u = getTotalEntries g u"
  by (simp add: getTotalEntries_def)

lemma weightedEntries_isActive: "weightedEntries (g\<lparr>isActive := b\<rparr>) = weightedEntries g"
  by (simp add: weightedEntries_def allUsers_isActive getTotalEntries_isActive)

lemma selectWinner_isActive: "selectWinner (g\<lparr>isActive := b\<rparr>) rnd = selectWinner g rnd"
  unfolding selectWinner_def allUsers_isActive weightedEntries_isActive ..

lemma exampleLedger_winner: "selectWinner exampleLedger (1 / 2) = Some ''alice''"
  by (simp add: selectWinner_def exampleLedger_users exampleLedger_pool nth_append)

lemma giveaway_end_no_participants:
  assumes "reg c = Some g" "isActive g" "allUsers g = []"
  shows "giveaway_end rnd reg c = (reg(c \<mapsto> g\<lparr>isActive := False\<rparr>), EndNoEntries)"
  using assms
  by (simp add: giveaway_end_def getGiveaway_def Let_def selectWinner_def allUsers_isActive)

lemma giveaway_end_active:
  assumes "reg c = Some g" "isActive g"
  shows "fst (giveaway_end rnd reg c) = reg(c \<mapsto> g\<lparr>isActive := False\<rparr>) \<or>
         fst (giveaway_end rnd reg c) = reg(c := None)"
  using assms
  by (simp add: giveaway_end_def getGiveaway_def Let_def split: option.splits)

lemma giveaway_end_leaves_none_active:
  "\<not> (\<exists>g. fst (giveaway_end rnd reg c) c = Some g \<and> isActive g)"
proof (cases "reg c")
  case None
  then show ?thesis by (simp add: giveaway_end_absent)
next
  case (Some g)
  show ?thesis
  proof (cases "isActive g")
    case False
    with Some show ?thesis by (simp add: giveaway_end_inactive)
  next
    case True
    from giveaway_end_active [of reg c g rnd, OF Some True] show ?thesis by auto
  qed
qed

lemma createGiveaway_AlreadyActive_iff:
  assumes "durationMatch d = Some (ds, u)"
  shows "createGiveaway rt price now eventId reg c prz d fee cap = Inl AlreadyActive
           \<longleftrightarrow> (\<exists>g. reg c = Some g \<and> isActive g)"
proof (cases "\<exists>g. reg c = Some g \<and> isActive g")
  case True
  with assms show ?thesis by (auto simp add: createGiveaway_def getGiveaway_def Let_def)
next
  case False
  show ?thesis
  proof (cases "usdToWei rt price fee")
    case (Inr w)
    from createGiveaway_accepts [of d ds u reg c rt price fee w, OF assms False Inr] False
    show ?thesis by simp
  next
    case (Inl e)
    then have e: "e = InvalidDecimalNumber" by (rule usdToWei_error)
    have "createGiveaway rt price now eventId reg c prz d fee cap = Inl InvalidDecimalNumber"
    proof (cases "reg c")
      case None
      with assms Inl e show ?thesis by (simp add: createGiveaway_def getGiveaway_def Let_def)
    next
      case (Some g)
      with False have "\<not> isActive g" by simp
      with Some assms Inl e show ?thesis by (simp add: createGiveaway_def getGiveaway_def Let_def)
    qed
    with False show ?thesis by simp
  qed
qed

lemma durationMatch_7d: "durationMatch ''7d'' = Some (''7'', CHR ''d'')"
  by (simp add: durationMatch_def isDigit_def)

subsection \<open>Converting a dollar amount\<close>







section \<open>The entry ledger\<close>

text \<open>
  Claim C1, as stated, fails for a cap beyond \<open>2^53\<close>, where the counts, which are doubles,
  are rounded.  With the cap \<open>9007199254740998 = 2^53 + 6\<close>, a first tip worth 3 entries is
  recorded as 3.  For a second tip worth \<open>2^53 + 4\<close> entries the remaining cap \<open>2^53 + 3\<close> is
  rounded to \<open>2^53 + 4\<close>, so the whole tip is granted, and the sum \<open>2^53 + 7\<close> is rounded to
  \<open>2^53 + 8\<close>: the stored count exceeds the cap.
\<close>

theorem tipEntries_exceed_large_cap:
  "tipEntries (exampleGiveaway\<lparr>tipEntryCap := 9007199254740998\<rparr>) = [] \<and>
   onTips ''bot'' [''c'' \<mapsto> exampleGiveaway\<lparr>tipEntryCap := 9007199254740998\<rparr>]
       [(5, exampleTip ''alice'' 300), (6, exampleTip ''alice'' 900719925474099600)]
     = Inr [''c'' \<mapsto> exampleGiveaway\<lparr>tipEntryCap := 9007199254740998,
              tipEntries := [(''alice'', 9007199254741000)]\<rparr>] \<and>
   tipEntryCap (exampleGiveaway\<lparr>tipEntryCap := 9007199254740998,
       tipEntries := [(''alice'', 9007199254741000)]\<rparr>)
     < getOrZero (tipEntries (exampleGiveaway\<lparr>tipEntryCap := 9007199254740998,
         tipEntries := [(''alice'', 9007199254741000)]\<rparr>)) ''alice''"
  by (simp add: onTip_def getGiveaway_def hasEnded_def addTipEntry_def getOrZero_def
      exampleGiveaway_def exampleTip_def signed_divide_int_def Let_def roundToDouble_exact
      roundToDouble_examples)

text \<open>
  Claim C1, amended.  Start from giveaways whose tip ledger is empty and whose cap is not
  negative and below \<open>2^53\<close>.  After any run of tip events, every participant's tip entries
  lie between 0 and the cap of their giveaway.  The run itself returns whenever no giveaway
  has a zero fee.
\<close>

theorem tipEntries_within_cap:
  assumes "\<forall>c g. reg c = Some g \<longrightarrow>
             tipEntries g = [] \<and> 0 \<le> tipEntryCap g \<and> tipEntryCap g < 2 ^ 53"
  shows "((\<forall>c g. reg c = Some g \<longrightarrow> tipEntryFee g \<noteq> 0) \<longrightarrow>
            (\<exists>reg'. onTips botId reg evs = Inr reg')) \<and>
         (\<forall>reg' c g p. onTips botId reg evs = Inr reg' \<and> reg' c = Some g \<longrightarrow>
            0 \<le> getOrZero (tipEntries g) p \<and> getOrZero (tipEntries g) p \<le> tipEntryCap g)"
proof -
  have "\<forall>c g. reg c = Some g \<longrightarrow> withinCap g \<and> tipEntryCap g < 2 ^ 53"
    using assms by (simp add: withinCap_def getOrZero_Nil)
  then have "\<forall>c g. reg' c = Some g \<longrightarrow> withinCap g \<and> tipEntryCap g < 2 ^ 53"
    if "onTips botId reg evs = Inr reg'" for reg'
    using that by (rule onTips_withinCap)
  then show ?thesis
    using onTips_total [of reg botId evs] by (auto simp add: withinCap_def)
qed

theorem tipEntries_within_cap_witness:
  "tipEntries exampleGiveaway = [] \<and> 0 \<le> tipEntryCap exampleGiveaway \<and>
   tipEntryCap exampleGiveaway < 2 ^ 53 \<and>
   (\<exists>reg' g. onTips ''bot'' [''c'' \<mapsto> exampleGiveaway]
        [(5, exampleTip ''alice'' 1500), (6, exampleTip ''alice'' 300)] = Inr reg' \<and>
      reg' ''c'' = Some g \<and>
      0 \<le> getOrZero (tipEntries g) ''alice'' \<and>
      getOrZero (tipEntries g) ''alice'' \<le> tipEntryCap g)"
proof -
  have h: "\<forall>c g. [''c'' \<mapsto> exampleGiveaway] c = Some g \<longrightarrow>
      tipEntries g = [] \<and> 0 \<le> tipEntryCap g \<and> tipEntryCap g < 2 ^ 53"
    by (simp add: exampleGiveaway_def)
  have g: "[''c'' \<mapsto> exampleGiveaway\<lparr>tipEntries := [(''alice'', 10)]\<rparr>] ''c''
      = Some (exampleGiveaway\<lparr>tipEntries := [(''alice'', 10)]\<rparr>)"
    by simp
  from tipEntries_within_cap [OF h, of "''bot''"
      "[(5, exampleTip ''alice'' 1500), (6, exampleTip ''alice'' 300)]"] example_run g
  have "0 \<le> getOrZero (tipEntries (exampleGiveaway\<lparr>tipEntries := [(''alice'', 10)]\<rparr>)) ''alice'' \<and>
      getOrZero (tipEntries (exampleGiveaway\<lparr>tipEntries := [(''alice'', 10)]\<rparr>)) ''alice''
        \<le> tipEntryCap (exampleGiveaway\<lparr>tipEntries := [(''alice'', 10)]\<rparr>)"
    by blast
  with example_run g show ?thesis
    by (simp add: exampleGiveaway_def)
qed

text \<open>
  Claim C2, as stated, fails for a quotient beyond \<open>2^53\<close>: \<open>Number(...)\<close> rounds it to a
  double.  With a fee of \<open>10^12\<close> wei and a cap of \<open>2^60\<close>, a tip of \<open>(2^53 + 1) * 10^12\<close> wei is
  worth \<open>\<lfloor>amount / tipEntryFee\<rfloor> = 2^53 + 1\<close> entries, which is below the remaining cap, but
  \<open>2^53\<close> entries are granted and recorded.
\<close>

theorem creditTip_rounds_large_quotient:
  "amount (exampleTip ''alice'' 9007199254740993000000000000) div 1000000000000
     = 9007199254740993 \<and>
   min (9007199254740993 :: int) (1152921504606846976 - 0) = 9007199254740993 \<and>
   onTip ''bot'' 5
       [''c'' \<mapsto> exampleGiveaway\<lparr>tipEntryFee := 1000000000000, tipEntryCap := 1152921504606846976\<rparr>]
       (exampleTip ''alice'' 9007199254740993000000000000)
     = Inr ([''c'' \<mapsto> exampleGiveaway\<lparr>tipEntryFee := 1000000000000,
               tipEntryCap := 1152921504606846976,
               tipEntries := [(''alice'', 9007199254740992)]\<rparr>],
            TipCredited 9007199254740992)"
  by (simp add: onTip_def getGiveaway_def hasEnded_def addTipEntry_def getOrZero_def
      exampleGiveaway_def exampleTip_def signed_divide_int_def Let_def roundToDouble_exact
      roundToDouble_examples)

text \<open>
  Claim C2, amended.  Take a tip to the bot in a channel whose giveaway is active, has not
  ended, has a non-zero fee and a cap below \<open>2^53\<close>, the sender's stored count not being
  negative.  The tip is worth \<open>potentialEntries = \<lfloor>amount / tipEntryFee\<rfloor>\<close> entries.  Below one
  entry the tip is refused as too small and the registry is unchanged; with no cap left it is
  refused and the registry is unchanged; otherwise exactly the minimum of \<open>potentialEntries\<close>
  and the remaining cap is added to the sender's tip entries and reported.  \<open>addTipEntry\<close>,
  called with a count of at least 1, adds and returns the minimum of that count and the
  remaining cap, and returns 0 when no cap is left.  The witness is the tip worth 15 entries
  against a cap of 10: it records and returns 10.
\<close>

theorem creditTip_grants_min:
  assumes "receiverAddress ev = botId" "reg (tipChannelId ev) = Some g" "isActive g"
      and "\<not> hasEnded now g" "tipEntryFee g \<noteq> 0"
      and "0 \<le> getOrZero (tipEntries g) (senderAddress ev)" "tipEntryCap g < 2 ^ 53"
  shows "let potentialEntries = amount ev div tipEntryFee g;
             current = getOrZero (tipEntries g) (senderAddress ev);
             remainingCap = tipEntryCap g - current;
             granted = min potentialEntries remainingCap;
             credited = reg(tipChannelId ev \<mapsto>
               g\<lparr>tipEntries := AList.update (senderAddress ev) (current + granted) (tipEntries g)\<rparr>)
         in onTip botId now reg ev =
              (if potentialEntries < 1 then Inr (reg, TipTooSmall)
               else if remainingCap \<le> 0 then Inr (reg, TipCapReached)
               else Inr (credited, TipCredited granted)) \<and>
            (\<forall>n. 1 \<le> n \<longrightarrow>
               addTipEntry reg (tipChannelId ev) (senderAddress ev) n =
                 (if remainingCap \<le> 0 then (reg, 0)
                  else (reg(tipChannelId ev \<mapsto>
                          g\<lparr>tipEntries := AList.update (senderAddress ev)
                              (current + min n remainingCap) (tipEntries g)\<rparr>),
                        min n remainingCap)))"
proof -
  let ?cur = "getOrZero (tipEntries g) (senderAddress ev)"
  let ?pot = "amount ev div tipEntryFee g"
  have tip: "onTip botId now reg ev =
      (if ?pot < 1 then Inr (reg, TipTooSmall)
       else if tipEntryCap g - ?cur \<le> 0 then Inr (reg, TipCapReached)
       else Inr (reg(tipChannelId ev \<mapsto>
              g\<lparr>tipEntries := AList.update (senderAddress ev)
                  (?cur + min ?pot (tipEntryCap g - ?cur)) (tipEntries g)\<rparr>),
            TipCredited (min ?pot (tipEntryCap g - ?cur))))"
  proof (cases "?pot < 1 \<or> tipEntryCap g - ?cur \<le> 0")
    case True
    then show ?thesis
      using onTip_active [of ev botId reg g now, OF assms(1-5)] by auto
  next
    case False
    then have rem: "0 < tipEntryCap g - ?cur" and pot: "1 \<le> ?pot" by simp_all
    note ex = credit_exact [OF assms(6,7) rem pot]
    from False have "onTip botId now reg ev =
        Inr (reg(tipChannelId ev \<mapsto>
               g\<lparr>tipEntries := AList.update (senderAddress ev)
                   (roundToDouble (?cur + min (roundToDouble ?pot)
                      (roundToDouble (tipEntryCap g - ?cur)))) (tipEntries g)\<rparr>),
             TipCredited (min (roundToDouble ?pot) (roundToDouble (tipEntryCap g - ?cur))))"
      using onTip_active [of ev botId reg g now, OF assms(1-5)] by simp
    then have "onTip botId now reg ev =
        Inr (reg(tipChannelId ev \<mapsto>
               g\<lparr>tipEntries := AList.update (senderAddress ev)
                   (?cur + min ?pot (tipEntryCap g - ?cur)) (tipEntries g)\<rparr>),
             TipCredited (min ?pot (tipEntryCap g - ?cur)))"
      by (simp only: ex)
    with False show ?thesis by simp
  qed
  have add: "addTipEntry reg (tipChannelId ev) (senderAddress ev) n =
      (if tipEntryCap g - ?cur \<le> 0 then (reg, 0)
       else (reg(tipChannelId ev \<mapsto>
               g\<lparr>tipEntries := AList.update (senderAddress ev)
                   (?cur + min n (tipEntryCap g - ?cur)) (tipEntries g)\<rparr>),
             min n (tipEntryCap g - ?cur)))"
    if n: "1 \<le> n" for n
  proof (cases "tipEntryCap g - ?cur \<le> 0")
    case True
    then show ?thesis
      using addTipEntry_active [of reg "tipChannelId ev" g, OF assms(2,3)] by simp
  next
    case False
    then have rem: "0 < tipEntryCap g - ?cur" by simp
    note ex = credit_exact [OF assms(6,7) rem n]
    from False have "addTipEntry reg (tipChannelId ev) (senderAddress ev) n =
        (reg(tipChannelId ev \<mapsto>
               g\<lparr>tipEntries := AList.update (senderAddress ev)
                   (roundToDouble (?cur + min n (roundToDouble (tipEntryCap g - ?cur))))
                   (tipEntries g)\<rparr>),
         min n (roundToDouble (tipEntryCap g - ?cur)))"
      using addTipEntry_active [of reg "tipChannelId ev" g "senderAddress ev" n, OF assms(2,3)]
      by simp
    then have "addTipEntry reg (tipChannelId ev) (senderAddress ev) n =
        (reg(tipChannelId ev \<mapsto>
               g\<lparr>tipEntries := AList.update (senderAddress ev)
                   (?cur + min n (tipEntryCap g - ?cur)) (tipEntries g)\<rparr>),
         min n (tipEntryCap g - ?cur))"
      by (simp only: ex)
    with False show ?thesis by simp
  qed
  from tip add show ?thesis by (simp add: Let_def)
qed

theorem creditTip_grants_min_witness:
  "receiverAddress (exampleTip ''alice'' 1500) = ''bot'' \<and>
   [''c'' \<mapsto> exampleGiveaway] (tipChannelId (exampleTip ''alice'' 1500)) = Some exampleGiveaway \<and>
   isActive exampleGiveaway \<and> \<not> hasEnded 5 exampleGiveaway \<and> tipEntryFee exampleGiveaway \<noteq> 0 \<and>
   0 \<le> getOrZero (tipEntries exampleGiveaway) (senderAddress (exampleTip ''alice'' 1500)) \<and>
   tipEntryCap exampleGiveaway < 2 ^ 53 \<and>
   amount (exampleTip ''alice'' 1500) div tipEntryFee exampleGiveaway = 15 \<and>
   tipEntryCap exampleGiveaway = 10 \<and>
   onTip ''bot'' 5 [''c'' \<mapsto> exampleGiveaway] (exampleTip ''alice'' 1500) =
     Inr ([''c'' \<mapsto> exampleGiveaway\<lparr>tipEntries := [(''alice'', 10)]\<rparr>], TipCredited 10) \<and>
   addTipEntry [''c'' \<mapsto> exampleGiveaway] ''c'' ''alice'' 15 =
     ([''c'' \<mapsto> exampleGiveaway\<lparr>tipEntries := [(''alice'', 10)]\<rparr>], 10)"
proof -
  have h: "receiverAddress (exampleTip ''alice'' 1500) = ''bot''"
    "[''c'' \<mapsto> exampleGiveaway] (tipChannelId (exampleTip ''alice'' 1500)) = Some exampleGiveaway"
    "isActive exampleGiveaway" "\<not> hasEnded 5 exampleGiveaway" "tipEntryFee exampleGiveaway \<noteq> 0"
    "0 \<le> getOrZero (tipEntries exampleGiveaway) (senderAddress (exampleTip ''alice'' 1500))"
    "tipEntryCap exampleGiveaway < 2 ^ 53"
    by (simp_all add: exampleTip_def exampleGiveaway_def hasEnded_def getOrZero_def)
  from creditTip_grants_min [of "exampleTip ''alice'' 1500" "''bot''" "[''c'' \<mapsto> exampleGiveaway]"
      exampleGiveaway 5, OF h] h
  show ?thesis
    by (simp add: Let_def exampleTip_def exampleGiveaway_def getOrZero_def)
qed

text \<open>
  Claim C8.  When the giveaway of a channel is inactive, \<open>addReactionEntry\<close> and \<open>addTipEntry\<close>
  and the two event handlers leave the whole registry, hence both ledgers, unchanged, and
  \<open>addTipEntry\<close> returns 0.
\<close>

theorem inactive_giveaway_noop:
  assumes "reg c = Some g" "\<not> isActive g"
  shows "addReactionEntry reg c u n = reg \<and>
         addTipEntry reg c u n = (reg, 0) \<and>
         (tipChannelId tev = c \<longrightarrow> onTip botId now reg tev = Inr (reg, TipIgnored)) \<and>
         (reactionChannelId rv = c \<longrightarrow> onReaction gift now reg rv = reg)"
  using assms
  by (simp add: addReactionEntry_def addTipEntry_def onTip_def onReaction_def getGiveaway_def)

theorem inactive_giveaway_noop_witness:
  "[''c'' \<mapsto> exampleGiveaway\<lparr>isActive := False\<rparr>] ''c'' = Some (exampleGiveaway\<lparr>isActive := False\<rparr>) \<and>
   \<not> isActive (exampleGiveaway\<lparr>isActive := False\<rparr>) \<and>
   addReactionEntry [''c'' \<mapsto> exampleGiveaway\<lparr>isActive := False\<rparr>] ''c'' ''alice'' 1
     = [''c'' \<mapsto> exampleGiveaway\<lparr>isActive := False\<rparr>] \<and>
   addTipEntry [''c'' \<mapsto> exampleGiveaway\<lparr>isActive := False\<rparr>] ''c'' ''alice'' 15
     = ([''c'' \<mapsto> exampleGiveaway\<lparr>isActive := False\<rparr>], 0) \<and>
   onTip ''bot'' 5 [''c'' \<mapsto> exampleGiveaway\<lparr>isActive := False\<rparr>] (exampleTip ''alice'' 1500)
     = Inr ([''c'' \<mapsto> exampleGiveaway\<lparr>isActive := False\<rparr>], TipIgnored) \<and>
   onReaction ''gift'' 5 [''c'' \<mapsto> exampleGiveaway\<lparr>isActive := False\<rparr>] (exampleReaction ''alice'')
     = [''c'' \<mapsto> exampleGiveaway\<lparr>isActive := False\<rparr>]"
proof -
  have h: "[''c'' \<mapsto> exampleGiveaway\<lparr>isActive := False\<rparr>] ''c'' = Some (exampleGiveaway\<lparr>isActive := False\<rparr>)"
    "\<not> isActive (exampleGiveaway\<lparr>isActive := False\<rparr>)"
    by simp_all
  have c: "tipChannelId (exampleTip ''alice'' 1500) = ''c''"
    "reactionChannelId (exampleReaction ''alice'') = ''c''"
    by (simp_all add: exampleTip_def exampleReaction_def)
  from inactive_giveaway_noop [of "[''c'' \<mapsto> exampleGiveaway\<lparr>isActive := False\<rparr>]" "''c''"
      "exampleGiveaway\<lparr>isActive := False\<rparr>" "''alice''" _ "exampleTip ''alice'' 1500" "''bot''" 5
      "exampleReaction ''alice''" "''gift''", OF h] c h
  show ?thesis by blast
qed

text \<open>
  Claim C10.  Whatever its argument, \<open>set-cap\<close> changes at most the field \<open>tipEntryCap\<close> of
  the channel's giveaway; on an active giveaway a positive argument becomes the new cap.  If
  the new cap is below the tip entries that a participant already holds, that count stays as
  it is, \<open>addTipEntry\<close> for this participant returns 0 and changes nothing, and the count is
  still the same after any run of tip events.
\<close>

theorem set_cap_frame:
  assumes "reg c = Some g"
  shows "(\<exists>k. fst (giveaway_set_cap reg c capArg) = reg(c \<mapsto> g\<lparr>tipEntryCap := k\<rparr>)) \<and>
         (isActive g \<and> 0 < cap \<longrightarrow>
            giveaway_set_cap reg c (Some (Some cap)) = (reg(c \<mapsto> g\<lparr>tipEntryCap := cap\<rparr>), SetDone) \<and>
            (cap < getOrZero (tipEntries g) p \<longrightarrow>
               (\<forall>n. addTipEntry (reg(c \<mapsto> g\<lparr>tipEntryCap := cap\<rparr>)) c p n
                      = (reg(c \<mapsto> g\<lparr>tipEntryCap := cap\<rparr>), 0)) \<and>
               (\<forall>botId evs reg'.
                  onTips botId (reg(c \<mapsto> g\<lparr>tipEntryCap := cap\<rparr>)) evs = Inr reg' \<longrightarrow>
                  (\<exists>g'. reg' c = Some g' \<and> tipEntryCap g' = cap \<and>
                        getOrZero (tipEntries g') p = getOrZero (tipEntries g) p))))"
proof (intro conjI impI allI)
  have triv: "reg = reg(c \<mapsto> g\<lparr>tipEntryCap := tipEntryCap g\<rparr>)"
    using assms by (simp add: fun_upd_idem)
  show "\<exists>k. fst (giveaway_set_cap reg c capArg) = reg(c \<mapsto> g\<lparr>tipEntryCap := k\<rparr>)"
  proof (cases "\<exists>k. capArg = Some (Some k) \<and> 0 < k \<and> isActive g")
    case True
    then show ?thesis using assms by (auto simp add: giveaway_set_cap_def getGiveaway_def)
  next
    case False
    then have "fst (giveaway_set_cap reg c capArg) = reg"
      using assms
      by (cases capArg; cases "the capArg")
         (auto simp add: giveaway_set_cap_def getGiveaway_def not_le)
    with triv show ?thesis by metis
  qed
next
  assume "isActive g \<and> 0 < cap"
  then show "giveaway_set_cap reg c (Some (Some cap)) = (reg(c \<mapsto> g\<lparr>tipEntryCap := cap\<rparr>), SetDone)"
    using assms by (simp add: giveaway_set_cap_def getGiveaway_def)
next
  fix n
  assume "cap < getOrZero (tipEntries g) p"
  then show "addTipEntry (reg(c \<mapsto> g\<lparr>tipEntryCap := cap\<rparr>)) c p n = (reg(c \<mapsto> g\<lparr>tipEntryCap := cap\<rparr>), 0)"
    by (simp add: addTipEntry_def Let_def roundToDouble_le_zero_iff)
next
  fix botId evs reg'
  assume low: "cap < getOrZero (tipEntries g) p"
    and run: "onTips botId (reg(c \<mapsto> g\<lparr>tipEntryCap := cap\<rparr>)) evs = Inr reg'"
  have "(reg(c \<mapsto> g\<lparr>tipEntryCap := cap\<rparr>)) c = Some (g\<lparr>tipEntryCap := cap\<rparr>)" by simp
  moreover have "tipEntryCap (g\<lparr>tipEntryCap := cap\<rparr>) \<le> getOrZero (tipEntries (g\<lparr>tipEntryCap := cap\<rparr>)) p"
    using low by simp
  ultimately show "\<exists>g'. reg' c = Some g' \<and> tipEntryCap g' = cap \<and>
      getOrZero (tipEntries g') p = getOrZero (tipEntries g) p"
    using onTips_capped_sender [OF run] by fastforce
qed

theorem set_cap_frame_witness:
  "[''c'' \<mapsto> exampleGiveaway\<lparr>tipEntries := [(''alice'', 10)]\<rparr>] ''c''
     = Some (exampleGiveaway\<lparr>tipEntries := [(''alice'', 10)]\<rparr>) \<and>
   isActive (exampleGiveaway\<lparr>tipEntries := [(''alice'', 10)]\<rparr>) \<and> (0::int) < 5 \<and>
   5 < getOrZero (tipEntries (exampleGiveaway\<lparr>tipEntries := [(''alice'', 10)]\<rparr>)) ''alice'' \<and>
   giveaway_set_cap [''c'' \<mapsto> exampleGiveaway\<lparr>tipEntries := [(''alice'', 10)]\<rparr>] ''c'' (Some (Some 5))
     = ([''c'' \<mapsto> exampleGiveaway\<lparr>tipEntries := [(''alice'', 10)], tipEntryCap := 5\<rparr>], SetDone) \<and>
   addTipEntry [''c'' \<mapsto> exampleGiveaway\<lparr>tipEntries := [(''alice'', 10)], tipEntryCap := 5\<rparr>]
       ''c'' ''alice'' 3
     = ([''c'' \<mapsto> exampleGiveaway\<lparr>tipEntries := [(''alice'', 10)], tipEntryCap := 5\<rparr>], 0) \<and>
   (\<exists>reg' g'. onTips ''bot''
        [''c'' \<mapsto> exampleGiveaway\<lparr>tipEntries := [(''alice'', 10)], tipEntryCap := 5\<rparr>]
        [(5, exampleTip ''alice'' 300), (6, exampleTip ''bob'' 200)] = Inr reg' \<and>
      reg' ''c'' = Some g' \<and> tipEntryCap g' = 5 \<and> getOrZero (tipEntries g') ''alice'' = 10)"
proof -
  let ?g = "exampleGiveaway\<lparr>tipEntries := [(''alice'', 10)]\<rparr>"
  let ?evs = "[(5, exampleTip ''alice'' 300), (6, exampleTip ''bob'' 200)]"
  have h: "[''c'' \<mapsto> ?g] ''c'' = Some ?g" by simp
  have a: "isActive ?g \<and> (0::int) < 5" by (simp add: exampleGiveaway_def)
  have l: "5 < getOrZero (tipEntries ?g) ''alice''" by (simp add: getOrZero_def)
  have v: "getOrZero (tipEntries ?g) ''alice'' = 10" by (simp add: getOrZero_def)
  have run: "onTips ''bot'' ([''c'' \<mapsto> ?g\<lparr>tipEntryCap := 5\<rparr>]) ?evs
      = Inr [''c'' \<mapsto> ?g\<lparr>tipEntryCap := 5, tipEntries := [(''alice'', 10), (''bob'', 2)]\<rparr>]"
    by (simp add: onTip_def getGiveaway_def hasEnded_def addTipEntry_def getOrZero_def
        exampleGiveaway_def exampleTip_def signed_divide_int_def Let_def roundToDouble_exact)
  note t = set_cap_frame [of "[''c'' \<mapsto> ?g]" "''c''" ?g "Some (Some 5)" 5 "''alice''", OF h]
  from t a have 1: "giveaway_set_cap [''c'' \<mapsto> ?g] ''c'' (Some (Some 5))
      = ([''c'' \<mapsto> ?g\<lparr>tipEntryCap := 5\<rparr>], SetDone)"
    by simp
  from t a l have 2: "addTipEntry ([''c'' \<mapsto> ?g\<lparr>tipEntryCap := 5\<rparr>]) ''c'' ''alice'' 3
      = ([''c'' \<mapsto> ?g\<lparr>tipEntryCap := 5\<rparr>], 0)"
    by simp
  from t a l have "\<forall>botId evs reg'.
      onTips botId ([''c'' \<mapsto> ?g](''c'' \<mapsto> ?g\<lparr>tipEntryCap := 5\<rparr>)) evs = Inr reg' \<longrightarrow>
      (\<exists>g'. reg' ''c'' = Some g' \<and> tipEntryCap g' = 5 \<and>
            getOrZero (tipEntries g') ''alice'' = getOrZero (tipEntries ?g) ''alice'')"
    by blast
  with run v have 3: "\<exists>reg' g'. onTips ''bot'' ([''c'' \<mapsto> ?g\<lparr>tipEntryCap := 5\<rparr>]) ?evs = Inr reg' \<and>
      reg' ''c'' = Some g' \<and> tipEntryCap g' = 5 \<and> getOrZero (tipEntries g') ''alice'' = 10"
    by (metis fun_upd_upd)
  from h a l 1 2 3 show ?thesis
    by (simp add: exampleGiveaway_def)
qed

section \<open>The lottery\<close>

text \<open>
  The weighted array of \<open>selectWinner\<close>, as far as it can be counted.  Let no participant
  have a negative total.  The participants are the keys of either ledger; each of them occurs
  in the weighted array exactly as often as their total of reaction and tip entries, and the
  length of the array is the sum of the totals.  Which slot a draw reads depends on the
  rounding of \<open>Math.random() * length\<close> to a double and on the distribution of
  \<open>Math.random()\<close>; neither is part of this model.
\<close>

lemma weighted_pool_counts:
  assumes "\<forall>p \<in> set (allUsers g). 0 \<le> getTotalEntries g p"
  shows "set (allUsers g) = fst ` set (reactionEntries g) \<union> fst ` set (tipEntries g) \<and>
         (\<forall>p \<in> set (allUsers g).
            int (count_list (weightedEntries g) p) = getTotalEntries g p) \<and>
         int (length (weightedEntries g)) = (\<Sum>p\<leftarrow>allUsers g. getTotalEntries g p)"
proof -
  have cnt: "int (count_list (weightedEntries g) p) = getTotalEntries g p"
    if "p \<in> set (allUsers g)" for p
    using that assms by (simp add: count_weightedEntries)
  have len: "int (length (weightedEntries g)) = (\<Sum>p\<leftarrow>allUsers g. getTotalEntries g p)"
    using assms by (simp add: length_weightedEntries sum_list_nat_int)
  show ?thesis
    using cnt len set_allUsers [of g] by blast
qed



section \<open>Creating and ending a giveaway\<close>

text \<open>
  Claim C7.  The \<open>create\<close> branch of the first version of the command handler and
  \<open>createGiveaway\<close> evaluated on \<open>24H\<close>, a string of the claim's grammar, and the branch on
  \<open>24h\<close>.
  The expression of the branch has no \<open>i\<close> flag: it refuses \<open>24H\<close> as an invalid duration,
  while \<open>createGiveaway\<close> creates the giveaway that the branch creates for \<open>24h\<close>.
\<close>

theorem inline_create_refuses_upper_case:
  "giveaway_create exampleRuntime (Num 3000) 1000 ''m'' Map.empty ''c'' ''100 USDC'' ''24H''
       (Num (1 / 2)) 10
     = Inl InvalidDuration \<and>
   giveaway_create exampleRuntime (Num 3000) 1000 ''m'' Map.empty ''c'' ''100 USDC'' ''24h''
       (Num (1 / 2)) 10
     = Inr [''c'' \<mapsto>
         \<lparr>channelId = ''c'', prize = ''100 USDC'', startTime = 1000, endTime = Some 86401000,
          tipEntryFee = 166666666666667, tipEntryCap = 10, tipEntries = [],
          reactionEntries = [], isActive = True, announcementMessageId = Some ''m''\<rparr>] \<and>
   createGiveaway exampleRuntime (Num 3000) 1000 ''m'' Map.empty ''c'' ''100 USDC'' ''24H''
       (Num (1 / 2)) 10
     = Inr [''c'' \<mapsto>
         \<lparr>channelId = ''c'', prize = ''100 USDC'', startTime = 1000, endTime = Some 86401000,
          tipEntryFee = 166666666666667, tipEntryCap = 10, tipEntries = [],
          reactionEntries = [], isActive = True, announcementMessageId = Some ''m''\<rparr>]"
proof -
  have inline: "giveaway_create exampleRuntime (Num 3000) 1000 ''m'' Map.empty ''c'' ''100 USDC''
      ''24H'' (Num (1 / 2)) 10 = Inl InvalidDuration"
    by (simp add: giveaway_create_def durationMatchInline_upper_case)
  have free: "\<not> (\<exists>g. Map.empty ''c'' = Some g \<and> isActive g)" by simp
  have helper: "createGiveaway exampleRuntime (Num 3000) 1000 ''m'' Map.empty ''c'' ''100 USDC''
      ''24H'' (Num (1 / 2)) 10
     = Inr [''c'' \<mapsto>
         \<lparr>channelId = ''c'', prize = ''100 USDC'', startTime = 1000, endTime = Some 86401000,
          tipEntryFee = 166666666666667, tipEntryCap = 10, tipEntries = [],
          reactionEntries = [], isActive = True, announcementMessageId = Some ''m''\<rparr>]"
    unfolding createGiveaway_accepts [of "''24H''" "''24''" "CHR ''H''" Map.empty "''c''"
        exampleRuntime "Num 3000" "Num (1 / 2)" 166666666666667,
        OF durationMatchInline_upper_case(2) free usdToWei_example]
    by (simp add: parseInt_def digitValue_def msDuration_def toLowerCase_def newDate_def)
  have prz: "''100 USDC'' \<noteq> []" by simp
  have lower: "giveaway_create exampleRuntime (Num 3000) 1000 ''m'' Map.empty ''c'' ''100 USDC''
      ''24h'' (Num (1 / 2)) 10
     = Inr [''c'' \<mapsto>
         \<lparr>channelId = ''c'', prize = ''100 USDC'', startTime = 1000, endTime = Some 86401000,
          tipEntryFee = 166666666666667, tipEntryCap = 10, tipEntries = [],
          reactionEntries = [], isActive = True, announcementMessageId = Some ''m''\<rparr>]"
    unfolding giveaway_create_accepts [of "''100 USDC''" "''24h''" "''24''" "CHR ''h''" Map.empty
        "''c''" exampleRuntime "Num 3000" "Num (1 / 2)" 166666666666667,
        OF prz durationMatchInline_examples(1) free usdToWei_example]
    by (simp add: parseInt_def digitValue_def msDuration_def newDate_def)
  from inline lower helper show ?thesis by simp
qed

text \<open>
  The duration in \<open>createGiveaway\<close> and in the \<open>create\<close> branch of the first version.
  \<open>createGiveaway\<close> answers \<open>InvalidDuration\<close>, creating nothing, exactly for the strings
  outside the grammar \<open>^\d+[mhd]$\<close> with the letter in either case, as claim C7 says; the
  \<open>create\<close> branch of the first version, given a prize and a duration string, does so exactly
  for the strings outside that grammar with a lower-case letter.  A string that is not
  refused is accepted whenever the channel has no active giveaway and the fee converts.  A
  giveaway created by either starts at \<open>now\<close> and ends at \<open>now\<close> plus the number times the
  unit, as long as that instant is a date that JavaScript can represent (at most 8.64e15 ms
  from the epoch; beyond, \<open>endTime\<close> is an invalid date).  For both, \<open>24h\<close> ends 24 hours and
  \<open>2d\<close> ends 48 hours after \<open>now\<close>, and \<open>x\<close> and \<open>24\<close> are refused.
\<close>

theorem create_duration:
  "(createGiveaway rt price now eventId reg c prz d fee cap = Inl InvalidDuration
      \<longleftrightarrow> \<not> specDurationGrammar d) \<and>
   (prz \<noteq> [] \<and> d \<noteq> [] \<longrightarrow>
      (giveaway_create rt price now eventId reg c prz d fee cap = Inl InvalidDuration
         \<longleftrightarrow> \<not> (specDurationGrammar d \<and> last d \<in> set ''mhd''))) \<and>
   (specDurationGrammar d \<and> \<not> (\<exists>g. reg c = Some g \<and> isActive g) \<and>
      (\<exists>w. usdToWei rt price fee = Inr w) \<longrightarrow>
      (\<exists>reg'. createGiveaway rt price now eventId reg c prz d fee cap = Inr reg') \<and>
      (prz \<noteq> [] \<and> last d \<in> set ''mhd'' \<longrightarrow>
         (\<exists>reg'. giveaway_create rt price now eventId reg c prz d fee cap = Inr reg'))) \<and>
   (\<forall>reg'. createGiveaway rt price now eventId reg c prz d fee cap = Inr reg' \<or>
           giveaway_create rt price now eventId reg c prz d fee cap = Inr reg' \<longrightarrow>
      (\<exists>digits unit g. d = digits @ [unit] \<and> reg' c = Some g \<and> startTime g = now \<and>
         endTime g = newDate (now + parseInt digits * specUnitMs unit) \<and>
         (\<bar>now + parseInt digits * specUnitMs unit\<bar> \<le> 8640000000000000 \<longrightarrow>
            endTime g = Some (startTime g + parseInt digits * specUnitMs unit)))) \<and>
   (\<forall>reg'. createGiveaway rt price now eventId reg c prz ''24h'' fee cap = Inr reg' \<or>
           giveaway_create rt price now eventId reg c prz ''24h'' fee cap = Inr reg' \<longrightarrow>
      (\<exists>g. reg' c = Some g \<and> endTime g = newDate (now + 24 * (60 * 60 * 1000)))) \<and>
   (\<forall>reg'. createGiveaway rt price now eventId reg c prz ''2d'' fee cap = Inr reg' \<or>
           giveaway_create rt price now eventId reg c prz ''2d'' fee cap = Inr reg' \<longrightarrow>
      (\<exists>g. reg' c = Some g \<and> endTime g = newDate (now + 48 * (60 * 60 * 1000)))) \<and>
   createGiveaway rt price now eventId reg c prz ''x'' fee cap = Inl InvalidDuration \<and>
   createGiveaway rt price now eventId reg c prz ''24'' fee cap = Inl InvalidDuration \<and>
   (prz \<noteq> [] \<longrightarrow>
      giveaway_create rt price now eventId reg c prz ''x'' fee cap = Inl InvalidDuration \<and>
      giveaway_create rt price now eventId reg c prz ''24'' fee cap = Inl InvalidDuration)"
proof -
  have invalid: "createGiveaway rt price now eventId reg c prz d fee cap = Inl InvalidDuration
      \<longleftrightarrow> \<not> specDurationGrammar d"
    by (simp only: createGiveaway_InvalidDuration_iff durationMatch_None_iff)
  have invalid': "giveaway_create rt price now eventId reg c prz d fee cap = Inl InvalidDuration
      \<longleftrightarrow> \<not> (specDurationGrammar d \<and> last d \<in> set ''mhd'')"
    if "prz \<noteq> []" "d \<noteq> []"
    using giveaway_create_InvalidDuration_iff [OF that] durationMatchInline_None_iff [of d]
    by simp
  have accept: "\<exists>reg'. createGiveaway rt price now eventId reg c prz d fee cap = Inr reg'"
    if "specDurationGrammar d" "\<not> (\<exists>g. reg c = Some g \<and> isActive g)" "usdToWei rt price fee = Inr w"
    for w
  proof -
    from that(1) obtain ds u where "durationMatch d = Some (ds, u)"
      unfolding specDurationGrammar_iff by blast
    from createGiveaway_accepts [of d ds u reg c rt price fee w, OF this that(2,3)]
    show ?thesis by blast
  qed
  have accept': "\<exists>reg'. giveaway_create rt price now eventId reg c prz d fee cap = Inr reg'"
    if "specDurationGrammar d" "\<not> (\<exists>g. reg c = Some g \<and> isActive g)" "usdToWei rt price fee = Inr w"
      "prz \<noteq> []" "last d \<in> set ''mhd''"
    for w
  proof -
    from that(1,5) have "durationMatchInline d \<noteq> None"
      by (simp only: durationMatchInline_None_iff) simp
    then obtain ds u where "durationMatchInline d = Some (ds, u)" by auto
    from giveaway_create_accepts [of prz d ds u reg c rt price fee w, OF that(4) this that(2,3)]
    show ?thesis by blast
  qed
  have range: "\<bar>now + parseInt digits * specUnitMs unit\<bar> \<le> 8640000000000000 \<longrightarrow>
        endTime g = Some (startTime g + parseInt digits * specUnitMs unit)"
    if "startTime g = now" "endTime g = newDate (now + parseInt digits * specUnitMs unit)"
    for g digits unit
    using that by (simp add: newDate_def)
  have ends: "\<exists>digits unit g. d = digits @ [unit] \<and> reg' c = Some g \<and> startTime g = now \<and>
         endTime g = newDate (now + parseInt digits * specUnitMs unit) \<and>
         (\<bar>now + parseInt digits * specUnitMs unit\<bar> \<le> 8640000000000000 \<longrightarrow>
            endTime g = Some (startTime g + parseInt digits * specUnitMs unit))"
    if "createGiveaway rt price now eventId reg c prz d fee cap = Inr reg' \<or>
        giveaway_create rt price now eventId reg c prz d fee cap = Inr reg'" for reg'
  proof -
    from that obtain digits unit g where
      *: "d = digits @ [unit]" "reg' c = Some g" "startTime g = now"
         "endTime g = newDate (now + parseInt digits * specUnitMs unit)"
      using createGiveaway_endTime [of rt price now eventId reg c prz d fee cap reg']
        giveaway_create_endTime [of rt price now eventId reg c prz d fee cap reg']
      by blast
    from range [OF *(3,4)] * show ?thesis by blast
  qed
  have h24: "\<exists>g. reg' c = Some g \<and> endTime g = newDate (now + 24 * (60 * 60 * 1000))"
    if "createGiveaway rt price now eventId reg c prz ''24h'' fee cap = Inr reg' \<or>
        giveaway_create rt price now eventId reg c prz ''24h'' fee cap = Inr reg'" for reg'
    using that createGiveaway_Inr [of rt price now eventId reg c prz "''24h''" fee cap reg']
      giveaway_create_Inr [of rt price now eventId reg c prz "''24h''" fee cap reg']
    by (auto simp add: durationMatch_examples durationMatchInline_examples parseInt_examples
        msDuration_def toLowerCase_def)
  have d2: "\<exists>g. reg' c = Some g \<and> endTime g = newDate (now + 48 * (60 * 60 * 1000))"
    if "createGiveaway rt price now eventId reg c prz ''2d'' fee cap = Inr reg' \<or>
        giveaway_create rt price now eventId reg c prz ''2d'' fee cap = Inr reg'" for reg'
    using that createGiveaway_Inr [of rt price now eventId reg c prz "''2d''" fee cap reg']
      giveaway_create_Inr [of rt price now eventId reg c prz "''2d''" fee cap reg']
    by (auto simp add: durationMatch_examples durationMatchInline_examples parseInt_examples
        msDuration_def toLowerCase_def)
  have bad: "createGiveaway rt price now eventId reg c prz ''x'' fee cap = Inl InvalidDuration"
    "createGiveaway rt price now eventId reg c prz ''24'' fee cap = Inl InvalidDuration"
    by (simp_all only: createGiveaway_InvalidDuration_iff durationMatch_examples)
  have bad': "giveaway_create rt price now eventId reg c prz ''x'' fee cap = Inl InvalidDuration \<and>
      giveaway_create rt price now eventId reg c prz ''24'' fee cap = Inl InvalidDuration"
    if "prz \<noteq> []"
    using that by (simp add: giveaway_create_def durationMatchInline_examples)
  from invalid invalid' accept accept' ends h24 d2 bad bad' show ?thesis by blast
qed

theorem create_duration_witness:
  "specDurationGrammar ''24h'' \<and> last ''24h'' \<in> set ''mhd'' \<and> \<not> specDurationGrammar ''24'' \<and>
   usdToWei exampleRuntime (Num 3000) (Num (1 / 2)) = Inr 166666666666667 \<and>
   (\<exists>reg' g. createGiveaway exampleRuntime (Num 3000) 1000 ''m'' Map.empty ''c'' ''100 USDC''
        ''24h'' (Num (1 / 2)) 10 = Inr reg' \<and>
      reg' ''c'' = Some g \<and> startTime g = 1000 \<and> endTime g = Some 86401000) \<and>
   (\<exists>reg' g. giveaway_create exampleRuntime (Num 3000) 1000 ''m'' Map.empty ''c'' ''100 USDC''
        ''24h'' (Num (1 / 2)) 10 = Inr reg' \<and>
      reg' ''c'' = Some g \<and> startTime g = 1000 \<and> endTime g = Some 86401000) \<and>
   createGiveaway exampleRuntime (Num 3000) 1000 ''m'' Map.empty ''c'' ''100 USDC'' ''24''
       (Num (1 / 2)) 10 = Inl InvalidDuration \<and>
   giveaway_create exampleRuntime (Num 3000) 1000 ''m'' Map.empty ''c'' ''100 USDC'' ''24''
       (Num (1 / 2)) 10 = Inl InvalidDuration"
proof -
  note t = create_duration [of exampleRuntime "Num 3000" 1000 "''m''" Map.empty "''c''"
      "''100 USDC''" _ "Num (1 / 2)" 10]
  have yes: "specDurationGrammar ''24h''" and no: "\<not> specDurationGrammar ''24''"
    by (simp_all add: specDurationGrammar_iff durationMatch_examples)
  have lower: "last ''24h'' \<in> set ''mhd''" and prz: "''100 USDC'' \<noteq> []" by simp_all
  have free: "\<not> (\<exists>g. Map.empty ''c'' = Some g \<and> isActive g)" by simp
  from t [of "''24h''"] yes free usdToWei_example obtain reg' where
    new: "createGiveaway exampleRuntime (Num 3000) 1000 ''m'' Map.empty ''c'' ''100 USDC''
        ''24h'' (Num (1 / 2)) 10 = Inr reg'"
    by blast
  with t [of "''24h''"] obtain g where g: "reg' ''c'' = Some g"
    "endTime g = newDate (1000 + 24 * (60 * 60 * 1000))"
    by blast
  from t [of "''24h''"] new g(1) have "startTime g = 1000" by fastforce
  moreover from g(2) have "endTime g = Some 86401000" by (simp add: newDate_def)
  ultimately have 1: "\<exists>reg' g. createGiveaway exampleRuntime (Num 3000) 1000 ''m'' Map.empty ''c''
        ''100 USDC'' ''24h'' (Num (1 / 2)) 10 = Inr reg' \<and>
      reg' ''c'' = Some g \<and> startTime g = 1000 \<and> endTime g = Some 86401000"
    using new g(1) by blast
  from t [of "''24h''"] yes free usdToWei_example prz lower obtain reg2 where
    new2: "giveaway_create exampleRuntime (Num 3000) 1000 ''m'' Map.empty ''c'' ''100 USDC''
        ''24h'' (Num (1 / 2)) 10 = Inr reg2"
    by blast
  with t [of "''24h''"] obtain g2 where g2: "reg2 ''c'' = Some g2"
    "endTime g2 = newDate (1000 + 24 * (60 * 60 * 1000))"
    by blast
  from t [of "''24h''"] new2 g2(1) have "startTime g2 = 1000" by fastforce
  moreover from g2(2) have "endTime g2 = Some 86401000" by (simp add: newDate_def)
  ultimately have 2: "\<exists>reg' g. giveaway_create exampleRuntime (Num 3000) 1000 ''m'' Map.empty ''c''
        ''100 USDC'' ''24h'' (Num (1 / 2)) 10 = Inr reg' \<and>
      reg' ''c'' = Some g \<and> startTime g = 1000 \<and> endTime g = Some 86401000"
    using new2 g2(1) by blast
  from t [of "''24''"] no prz
  have 3: "createGiveaway exampleRuntime (Num 3000) 1000 ''m'' Map.empty ''c'' ''100 USDC'' ''24''
       (Num (1 / 2)) 10 = Inl InvalidDuration"
    "giveaway_create exampleRuntime (Num 3000) 1000 ''m'' Map.empty ''c'' ''100 USDC'' ''24''
       (Num (1 / 2)) 10 = Inl InvalidDuration"
    by blast+
  from yes lower no usdToWei_example 1 2 3 show ?thesis by blast
qed

text \<open>
  Claim C5.  The \<open>end\<close> command evaluated in three situations.  An active giveaway with no
  participants: the reply is "no entries", and the record stays in the registry, inactive
  (the handler returns before \<open>activeGiveaways.delete\<close>).  A giveaway with entries that the
  periodic clean-up has marked inactive: the reply is "no active giveaway", nothing is drawn
  and the record stays, although the clean-up leaves the draw to this command.  The same
  giveaway while active: the winner is drawn and the record is removed.
\<close>

theorem giveaway_end_record_kept:
  "giveaway_end (1 / 2) [''c'' \<mapsto> exampleGiveaway] ''c''
     = ([''c'' \<mapsto> exampleGiveaway\<lparr>isActive := False\<rparr>], EndNoEntries) \<and>
   sweep 86400001 [''c'' \<mapsto> exampleLedger] = [''c'' \<mapsto> exampleLedger\<lparr>isActive := False\<rparr>] \<and>
   giveaway_end (1 / 2) [''c'' \<mapsto> exampleLedger\<lparr>isActive := False\<rparr>] ''c''
     = ([''c'' \<mapsto> exampleLedger\<lparr>isActive := False\<rparr>], EndNoActiveGiveaway) \<and>
   giveaway_end (1 / 2) [''c'' \<mapsto> exampleLedger] ''c''
     = (Map.empty, EndWinner ''alice'' 9 10 2)"
proof -
  have users: "allUsers exampleGiveaway = []"
    by (simp add: allUsers_def newSet_def exampleGiveaway_def)
  have active: "isActive exampleGiveaway" by (simp add: exampleGiveaway_def)
  have 1: "giveaway_end (1 / 2) [''c'' \<mapsto> exampleGiveaway] ''c''
      = ([''c'' \<mapsto> exampleGiveaway\<lparr>isActive := False\<rparr>], EndNoEntries)"
    using giveaway_end_no_participants [of "[''c'' \<mapsto> exampleGiveaway]" "''c''" exampleGiveaway "1 / 2"]
      users active by simp
  have 2: "sweep 86400001 [''c'' \<mapsto> exampleLedger] = [''c'' \<mapsto> exampleLedger\<lparr>isActive := False\<rparr>]"
    by (rule ext) (simp add: sweep_def hasEnded_def exampleLedger_def exampleGiveaway_def)
  have 3: "giveaway_end (1 / 2) [''c'' \<mapsto> exampleLedger\<lparr>isActive := False\<rparr>] ''c''
      = ([''c'' \<mapsto> exampleLedger\<lparr>isActive := False\<rparr>], EndNoActiveGiveaway)"
    by (simp add: giveaway_end_inactive)
  have active': "isActive exampleLedger" by (simp add: exampleLedger_def exampleGiveaway_def)
  have 4: "giveaway_end (1 / 2) [''c'' \<mapsto> exampleLedger] ''c''
      = (Map.empty, EndWinner ''alice'' 9 10 2)"
    by (simp add: giveaway_end_def getGiveaway_def Let_def active' selectWinner_isActive
        exampleLedger_winner allUsers_isActive getTotalEntries_isActive exampleLedger_users
        exampleLedger_totals roundToDouble_exact)
  from 1 2 3 4 show ?thesis by simp
qed

text \<open>
  Claim C6, as stated, fails: a giveaway that the clean-up has marked inactive does not
  block \<open>createGiveaway\<close>, which replaces the record, entries included, by the new giveaway.
\<close>

theorem expired_giveaway_does_not_block:
  "sweep 86400001 [''c'' \<mapsto> exampleLedger] ''c'' = Some (exampleLedger\<lparr>isActive := False\<rparr>) \<and>
   createGiveaway exampleRuntime (Num 3000) 86400001 ''m2'' (sweep 86400001 [''c'' \<mapsto> exampleLedger])
       ''c'' ''1 ETH'' ''7d'' (Num (1 / 2)) 10
     = Inr [''c'' \<mapsto>
         \<lparr>channelId = ''c'', prize = ''1 ETH'', startTime = 86400001, endTime = Some 691200001,
          tipEntryFee = 166666666666667, tipEntryCap = 10, tipEntries = [],
          reactionEntries = [], isActive = True, announcementMessageId = Some ''m2''\<rparr>] \<and>
   createGiveaway exampleRuntime (Num 3000) 86400001 ''m2'' (sweep 86400001 [''c'' \<mapsto> exampleLedger])
       ''c'' ''1 ETH'' ''7d'' (Num (1 / 2)) 10
     \<noteq> Inl AlreadyActive"
proof -
  have sw: "sweep 86400001 [''c'' \<mapsto> exampleLedger] = [''c'' \<mapsto> exampleLedger\<lparr>isActive := False\<rparr>]"
    by (rule ext) (simp add: sweep_def hasEnded_def exampleLedger_def exampleGiveaway_def)
  have free: "\<not> (\<exists>g. [''c'' \<mapsto> exampleLedger\<lparr>isActive := False\<rparr>] ''c'' = Some g \<and> isActive g)"
    by simp
  have "createGiveaway exampleRuntime (Num 3000) 86400001 ''m2'' [''c'' \<mapsto> exampleLedger\<lparr>isActive := False\<rparr>]
       ''c'' ''1 ETH'' ''7d'' (Num (1 / 2)) 10
     = Inr [''c'' \<mapsto>
         \<lparr>channelId = ''c'', prize = ''1 ETH'', startTime = 86400001, endTime = Some 691200001,
          tipEntryFee = 166666666666667, tipEntryCap = 10, tipEntries = [],
          reactionEntries = [], isActive = True, announcementMessageId = Some ''m2''\<rparr>]"
    unfolding createGiveaway_accepts [of "''7d''" "''7''" "CHR ''d''"
        "[''c'' \<mapsto> exampleLedger\<lparr>isActive := False\<rparr>]" "''c''" exampleRuntime "Num 3000"
        "Num (1 / 2)" 166666666666667,
        OF durationMatch_7d free usdToWei_example]
    by (simp add: parseInt_def digitValue_def msDuration_def toLowerCase_def newDate_def)
  with sw show ?thesis by simp
qed

text \<open>
  Claim C6, amended.  For a duration of the grammar, \<open>createGiveaway\<close> answers
  \<open>AlreadyActive\<close> exactly when the channel has a record with \<open>isActive = true\<close>.  A record
  that is inactive does not block: when the fee converts, the new giveaway takes its place
  with empty ledgers.  After an \<open>end\<close> command on the channel, whatever its outcome, the same
  call succeeds when the fee converts.
\<close>

theorem createGiveaway_already_active:
  assumes "specDurationGrammar d"
  shows "(createGiveaway rt price now eventId reg c prz d fee cap = Inl AlreadyActive
            \<longleftrightarrow> (\<exists>g. reg c = Some g \<and> isActive g)) \<and>
         (\<forall>g w. reg c = Some g \<and> \<not> isActive g \<and> usdToWei rt price fee = Inr w \<longrightarrow>
            (\<exists>reg' g'. createGiveaway rt price now eventId reg c prz d fee cap = Inr reg' \<and>
               reg' c = Some g' \<and> isActive g' \<and> tipEntries g' = [] \<and> reactionEntries g' = [])) \<and>
         (\<forall>rnd w. usdToWei rt price fee = Inr w \<longrightarrow>
            (\<exists>reg'. createGiveaway rt price now eventId (fst (giveaway_end rnd reg c)) c prz d fee cap
               = Inr reg'))"
proof -
  from assms obtain ds u where m: "durationMatch d = Some (ds, u)"
    unfolding specDurationGrammar_iff by blast
  have blocked: "createGiveaway rt price now eventId reg c prz d fee cap = Inl AlreadyActive
      \<longleftrightarrow> (\<exists>g. reg c = Some g \<and> isActive g)"
    using m by (rule createGiveaway_AlreadyActive_iff)
  have replaced: "\<exists>reg' g'. createGiveaway rt price now eventId reg c prz d fee cap = Inr reg' \<and>
      reg' c = Some g' \<and> isActive g' \<and> tipEntries g' = [] \<and> reactionEntries g' = []"
    if "reg c = Some g" "\<not> isActive g" "usdToWei rt price fee = Inr w" for g w
  proof -
    from that(1,2) have "\<not> (\<exists>g. reg c = Some g \<and> isActive g)" by simp
    from createGiveaway_accepts [of d ds u reg c rt price fee w, OF m this that(3)]
    show ?thesis by simp
  qed
  have after_end: "\<exists>reg'. createGiveaway rt price now eventId (fst (giveaway_end rnd reg c)) c prz d fee cap
      = Inr reg'"
    if "usdToWei rt price fee = Inr w" for rnd w
    using createGiveaway_accepts [of d ds u "fst (giveaway_end rnd reg c)" c rt price fee w,
        OF m giveaway_end_leaves_none_active that]
    by simp
  from blocked replaced after_end show ?thesis by blast
qed

theorem createGiveaway_already_active_witness:
  "specDurationGrammar ''7d'' \<and>
   createGiveaway exampleRuntime (Num 3000) 1000 ''m2'' [''c'' \<mapsto> exampleLedger] ''c'' ''1 ETH'' ''7d'' (Num (1 / 2)) 10
     = Inl AlreadyActive \<and>
   (\<exists>reg'. createGiveaway exampleRuntime (Num 3000) 1000 ''m2'' (fst (giveaway_end (1 / 2) [''c'' \<mapsto> exampleLedger] ''c''))
       ''c'' ''1 ETH'' ''7d'' (Num (1 / 2)) 10 = Inr reg') \<and>
   (\<exists>reg' g'. createGiveaway exampleRuntime (Num 3000) 1000 ''m2'' [''c'' \<mapsto> exampleLedger\<lparr>isActive := False\<rparr>]
       ''c'' ''1 ETH'' ''7d'' (Num (1 / 2)) 10 = Inr reg' \<and>
      reg' ''c'' = Some g' \<and> isActive g' \<and> tipEntries g' = [] \<and> reactionEntries g' = [])"
proof -
  have grammar: "specDurationGrammar ''7d''"
    by (simp add: specDurationGrammar_iff durationMatch_7d)
  note t = createGiveaway_already_active [OF grammar, of exampleRuntime "Num 3000" 1000 "''m2''" _
      "''c''" "''1 ETH''" "Num (1 / 2)" 10]
  have active: "\<exists>g. [''c'' \<mapsto> exampleLedger] ''c'' = Some g \<and> isActive g"
    by (simp add: exampleLedger_def exampleGiveaway_def)
  with t [of "[''c'' \<mapsto> exampleLedger]"]
  have 1: "createGiveaway exampleRuntime (Num 3000) 1000 ''m2'' [''c'' \<mapsto> exampleLedger] ''c'' ''1 ETH'' ''7d'' (Num (1 / 2)) 10
      = Inl AlreadyActive"
    by blast
  from t [of "[''c'' \<mapsto> exampleLedger]"] usdToWei_example
  have 2: "\<exists>reg'. createGiveaway exampleRuntime (Num 3000) 1000 ''m2'' (fst (giveaway_end (1 / 2) [''c'' \<mapsto> exampleLedger] ''c''))
       ''c'' ''1 ETH'' ''7d'' (Num (1 / 2)) 10 = Inr reg'"
    by blast
  have expired: "[''c'' \<mapsto> exampleLedger\<lparr>isActive := False\<rparr>] ''c'' = Some (exampleLedger\<lparr>isActive := False\<rparr>)
      \<and> \<not> isActive (exampleLedger\<lparr>isActive := False\<rparr>)"
    by simp
  with t [of "[''c'' \<mapsto> exampleLedger\<lparr>isActive := False\<rparr>]"] usdToWei_example
  have 3: "\<exists>reg' g'. createGiveaway exampleRuntime (Num 3000) 1000 ''m2'' [''c'' \<mapsto> exampleLedger\<lparr>isActive := False\<rparr>]
       ''c'' ''1 ETH'' ''7d'' (Num (1 / 2)) 10 = Inr reg' \<and>
      reg' ''c'' = Some g' \<and> isActive g' \<and> tipEntries g' = [] \<and> reactionEntries g' = []"
    by blast
  from grammar 1 2 3 show ?thesis by blast
qed

section \<open>The currency conversion\<close>



end
